theory Spec2Isabelle
  imports Complex_Main "HOL-Library.Word"
begin

section \<open>Diamond: the archive container of \<open>diamond.py\<close>\<close>

text \<open>
  The program packs files into one buffer, compresses the buffer with zlib and writes it
  behind a four-byte magic number (\<open>Diamond.empacotar_comprimir\<close>); the inverse checks the
  magic number, decompresses and walks the buffer with a cursor, writing each file
  (\<open>Diamond.descomprimir_desempacotar\<close>).

  Python values are modelled as follows.
  \<^item> A \<open>bytes\<close> or \<open>bytearray\<close> object is a list of 8-bit words.
  \<^item> A \<open>str\<close> is the list of its code points (natural numbers): the program encodes
    names as UTF-8 and cuts the encoding by bytes, so code points and bytes are kept apart.
  \<^item> An exception is a value of \<open>exc\<close>; a function that can raise returns \<open>exc + 'a\<close>.
  \<^item> The filesystem is a map from path strings to nodes. Paths are not normalised, and of
    the failures of the operating system only those that the data decide are modelled:
    opening a missing path or a directory for reading; opening a directory, an empty path,
    a path that ends with a separator or a path with a NUL for writing. Permissions,
    parent directories that are missing or are regular files, and full disks are outside
    the model; the theorem on packing and unpacking keeps a regular file out of the place
    of the destination directory by hypothesis.
  \<^item> A \<open>float\<close> is the rational number it holds; every arithmetic operation rounds the
    exact result to the nearest binary64 number, ties to even.
  \<^item> \<open>zlib.compress(_, level=9)\<close> and \<open>zlib.decompress\<close> belong to the Python runtime;
    they are parameters of the two operations.
\<close>

subsection \<open>Bytes, exceptions, \<open>struct\<close>\<close>

type_synonym byte = "8 word"
type_synonym bytes = "byte list"
type_synonym str = "nat list"

datatype exc =
  StructError | ValueError | OSError | UnicodeEncodeError | UnicodeDecodeError
  | IndexError | ZlibError | ZeroDivisionError

text \<open>The text of an ASCII literal of the source as a \<open>str\<close>.\<close>

definition lit :: "string \<Rightarrow> str" where
  "lit s = map of_char s"

text \<open>\<open>MAGIC_NUMBER = b'DMD\x01'\<close>\<close>

definition MAGIC_NUMBER :: bytes where
  "MAGIC_NUMBER = [0x44, 0x4D, 0x44, 0x01]"

text \<open>
  \<open>struct.pack('I', n)\<close>: the native unsigned int, four bytes; it raises \<open>struct.error\<close>
  when \<open>n\<close> does not fit. The byte order is the platform's; the model fixes little-endian.
\<close>

definition struct_pack_I :: "nat \<Rightarrow> exc + bytes" where
  "struct_pack_I n =
     (if n < 2 ^ 32
      then Inr [of_nat n, of_nat (n div 256), of_nat (n div 65536), of_nat (n div 16777216)]
      else Inl StructError)"

text \<open>\<open>struct.unpack('I', bs)[0]\<close>: raises \<open>struct.error\<close> unless \<open>bs\<close> has exactly 4 bytes.\<close>

definition struct_unpack_I :: "bytes \<Rightarrow> exc + nat" where
  "struct_unpack_I bs =
     (case bs of
        [b0, b1, b2, b3] \<Rightarrow>
          Inr (unat b0 + 256 * unat b1 + 65536 * unat b2 + 16777216 * unat b3)
      | _ \<Rightarrow> Inl StructError)"

text \<open>The slice \<open>xs[i:j]\<close> for \<open>0 \<le> i \<le> j\<close>: it stops at the end of \<open>xs\<close>, without an error.\<close>

definition fatia :: "'a list \<Rightarrow> nat \<Rightarrow> nat \<Rightarrow> 'a list" where
  "fatia xs i j = take (j - i) (drop i xs)"

text \<open>\<open>bytearray.append(n)\<close>: raises \<open>ValueError\<close> unless \<open>n\<close> is in \<open>range(256)\<close>.\<close>

definition bytearray_append :: "bytes \<Rightarrow> nat \<Rightarrow> exc + bytes" where
  "bytearray_append dados n = (if n < 256 then Inr (dados @ [of_nat n]) else Inl ValueError)"

subsection \<open>UTF-8\<close>

text \<open>
  \<open>str.encode('utf-8')\<close>, as byte values: one to four bytes for a code point; a surrogate
  (a \<open>str\<close> made from a file name can hold one) raises \<open>UnicodeEncodeError\<close>. Python has
  no code point from \<open>0x110000\<close> on; the model gives the same error there.
\<close>

definition encode_cp :: "nat \<Rightarrow> nat list option" where
  "encode_cp c =
     (if c < 0x80 then Some [c]
      else if c < 0x800 then Some [0xC0 + c div 64, 0x80 + c mod 64]
      else if c < 0x10000 then
        (if 0xD800 \<le> c \<and> c \<le> 0xDFFF then None
         else Some [0xE0 + c div 4096, 0x80 + c div 64 mod 64, 0x80 + c mod 64])
      else if c < 0x110000 then
        Some [0xF0 + c div 262144, 0x80 + c div 4096 mod 64, 0x80 + c div 64 mod 64,
              0x80 + c mod 64]
      else None)"

fun encode_utf8 :: "str \<Rightarrow> exc + bytes" where
  "encode_utf8 [] = Inr []"
| "encode_utf8 (c # cs) =
     (case encode_cp c of
        None \<Rightarrow> Inl UnicodeEncodeError
      | Some bs \<Rightarrow>
          (case encode_utf8 cs of
             Inl e \<Rightarrow> Inl e
           | Inr r \<Rightarrow> Inr (map of_nat bs @ r)))"

text \<open>
  \<open>bytes.decode('utf-8')\<close>, strict: a lead byte announces the length of the sequence, the
  bytes that follow must be continuation bytes \<open>0x80..0xBF\<close>, and the code point must need
  that length (no overlong form), be no surrogate and lie below \<open>0x110000\<close>. Anything else,
  also a sequence cut short by the end of the input, raises \<open>UnicodeDecodeError\<close>.
\<close>

definition cont :: "nat \<Rightarrow> bool" where
  "cont b = (0x80 \<le> b \<and> b < 0xC0)"

fun decode_nat :: "nat list \<Rightarrow> nat list option" where
  "decode_nat [] = Some []"
| "decode_nat (b0 # bs) =
     (if b0 < 0x80 then map_option ((#) b0) (decode_nat bs)
      else if b0 < 0xC0 then None
      else if b0 < 0xE0 then
        (case bs of
           b1 # r \<Rightarrow>
             (let c = (b0 - 0xC0) * 64 + (b1 - 0x80)
              in if cont b1 \<and> 0x80 \<le> c then map_option ((#) c) (decode_nat r) else None)
         | _ \<Rightarrow> None)
      else if b0 < 0xF0 then
        (case bs of
           b1 # b2 # r \<Rightarrow>
             (let c = (b0 - 0xE0) * 4096 + (b1 - 0x80) * 64 + (b2 - 0x80)
              in if cont b1 \<and> cont b2 \<and> 0x800 \<le> c \<and> \<not> (0xD800 \<le> c \<and> c \<le> 0xDFFF)
                 then map_option ((#) c) (decode_nat r) else None)
         | _ \<Rightarrow> None)
      else if b0 < 0xF8 then
        (case bs of
           b1 # b2 # b3 # r \<Rightarrow>
             (let c = (b0 - 0xF0) * 262144 + (b1 - 0x80) * 4096 + (b2 - 0x80) * 64 + (b3 - 0x80)
              in if cont b1 \<and> cont b2 \<and> cont b3 \<and> 0x10000 \<le> c \<and> c < 0x110000
                 then map_option ((#) c) (decode_nat r) else None)
         | _ \<Rightarrow> None)
      else None)"

definition decode_utf8 :: "bytes \<Rightarrow> exc + str" where
  "decode_utf8 bs =
     (case decode_nat (map unat bs) of None \<Rightarrow> Inl UnicodeDecodeError | Some s \<Rightarrow> Inr s)"

subsection \<open>Paths (\<open>posixpath\<close>) and the filesystem\<close>

definition sep :: nat where
  "sep = 47"

definition extsep :: nat where
  "extsep = 46"

text \<open>\<open>s.endswith(suf)\<close>\<close>

definition endswith :: "str \<Rightarrow> str \<Rightarrow> bool" where
  "endswith s suf = (length suf \<le> length s \<and> drop (length s - length suf) s = suf)"

text \<open>\<open>os.path.basename(p)\<close>: what follows the last \<open>/\<close>.\<close>

definition basename :: "str \<Rightarrow> str" where
  "basename p = rev (takeWhile (\<lambda>c. c \<noteq> sep) (rev p))"

text \<open>\<open>os.path.join(a, b)\<close>\<close>

definition join :: "str \<Rightarrow> str \<Rightarrow> str" where
  "join a b =
     (if b \<noteq> [] \<and> hd b = sep then b
      else if a = [] \<or> last a = sep then a @ b
      else a @ [sep] @ b)"

text \<open>
  \<open>os.path.splitext(p)[0]\<close>: \<open>p\<close> up to the last dot of its last component, when that dot
  has a character other than a dot before it in the component; \<open>p\<close> otherwise.
\<close>

definition splitext_root :: "str \<Rightarrow> str" where
  "splitext_root p =
     (let nome = basename p;
          ext = rev (takeWhile (\<lambda>c. c \<noteq> extsep) (rev nome));
          antes = take (length nome - length ext - 1) nome
      in if extsep \<in> set nome \<and> (\<exists>c \<in> set antes. c \<noteq> extsep)
         then take (length p - length ext - 1) p
         else p)"

datatype node = File bytes | Dir

type_synonym fs = "str \<Rightarrow> node option"

text \<open>\<open>os.path.exists(p)\<close>: false for the empty path and for a path with a NUL.\<close>

definition existe :: "fs \<Rightarrow> str \<Rightarrow> bool" where
  "existe f p = (p \<noteq> [] \<and> 0 \<notin> set p \<and> f p \<noteq> None)"

text \<open>\<open>open(p, 'rb').read()\<close>\<close>

definition ler :: "fs \<Rightarrow> str \<Rightarrow> exc + bytes" where
  "ler f p =
     (if 0 \<in> set p then Inl ValueError
      else case f p of Some (File c) \<Rightarrow> Inr c | _ \<Rightarrow> Inl OSError)"

text \<open>\<open>open(p, 'wb').write(c)\<close>: creates the file or replaces its content.\<close>

definition escrever :: "fs \<Rightarrow> str \<Rightarrow> bytes \<Rightarrow> exc + fs" where
  "escrever f p c =
     (if 0 \<in> set p then Inl ValueError
      else if p = [] \<or> last p = sep \<or> f p = Some Dir then Inl OSError
      else Inr (f(p \<mapsto> File c)))"

text \<open>\<open>os.makedirs(p)\<close>, called only where \<open>os.path.exists(p)\<close> is false.\<close>

definition makedirs :: "fs \<Rightarrow> str \<Rightarrow> exc + fs" where
  "makedirs f p =
     (if 0 \<in> set p then Inl ValueError
      else if p = [] then Inl OSError
      else Inr (f(p \<mapsto> Dir)))"

subsection \<open>Results of the two operations\<close>

text \<open>
  Each operation ends in one of: success; \<open>sys.exit(1)\<close> after "Arquivo nao encontrado";
  \<open>sys.exit(1)\<close> after "Arquivo nao e um formato .dmd valido"; \<open>sys.exit(1)\<close> from the handler
  \<open>except Exception as e\<close>. It is returned with the filesystem the operation leaves.
\<close>

datatype falha = ArquivoNaoEncontrado | FormatoInvalido | Erro exc

datatype 'a resultado = Sucesso 'a | Exit1 falha

text \<open>
  The summary that the packer prints: the path written, the two sizes, and the percentage
  as \<open>f"{taxa:.1f}"\<close> prints it, given by its sign and its number of tenths:
  \<open>(False, 637)\<close> is the text \<open>63.7\<close> and \<open>(True, 0)\<close> is the text \<open>-0.0\<close>.
\<close>

record relatorio =
  arquivo_criado :: str
  tamanho_original :: nat
  tamanho_comprimido :: nat
  taxa_1f :: "bool \<times> nat"

subsection \<open>Floating point\<close>

text \<open>
  A binary64 number other than zero is \<open>m * 2^e\<close> with an integer \<open>m\<close> of 53 bits,
  \<open>2^52 \<le> |m| < 2^53\<close>. \<open>pow2 e\<close> is \<open>2^e\<close> for an integer \<open>e\<close>; \<open>rhe\<close> rounds to the
  nearest integer, a tie to the even one; \<open>expoente n x\<close> is the integer \<open>k\<close> with
  \<open>2^k \<le> x < 2^(k+1)\<close> for a positive \<open>x\<close>, found in at most \<open>n\<close> steps of halving or
  doubling; \<open>round64\<close> is the rounding of an exact result to binary64. The limits of the
  exponent (overflow, subnormal numbers) are left out: with 1100 steps the search covers
  the whole range of binary64, which the sizes of a buffer do not leave.
\<close>

definition pow2 :: "int \<Rightarrow> rat" where
  "pow2 e = (if 0 \<le> e then 2 ^ nat e else 1 / 2 ^ nat (- e))"

definition rhe :: "rat \<Rightarrow> int" where
  "rhe y =
     (let f = \<lfloor>y\<rfloor>; d = y - of_int f
      in if d < 1 / 2 then f else if 1 / 2 < d then f + 1 else if even f then f else f + 1)"

fun expoente :: "nat \<Rightarrow> rat \<Rightarrow> int" where
  "expoente 0 x = 0"
| "expoente (Suc n) x =
     (if 2 \<le> x then expoente n (x / 2) + 1
      else if x < 1 then expoente n (x * 2) - 1
      else 0)"

definition round64 :: "rat \<Rightarrow> rat" where
  "round64 x =
     (if x = 0 then 0
      else let e = expoente 1100 \<bar>x\<bar> - 52
           in sgn x * of_int (rhe (\<bar>x\<bar> / pow2 e)) * pow2 e)"

text \<open>\<open>a / b\<close> for two \<open>int\<close>s that are sizes: the quotient, correctly rounded.\<close>

definition truediv :: "nat \<Rightarrow> nat \<Rightarrow> exc + rat" where
  "truediv a b = (if b = 0 then Inl ZeroDivisionError else Inr (round64 (of_nat a / of_nat b)))"

text \<open>
  \<open>f"{x:.1f}"\<close>: the decimal with one digit after the point that is nearest to the exact
  value of the float, a tie to the even digit; the sign is that of the float.
\<close>

definition format_1f :: "rat \<Rightarrow> bool \<times> nat" where
  "format_1f x = (x < 0, nat (rhe (\<bar>x\<bar> * 10)))"

subsection \<open>\<open>Diamond.empacotar_comprimir\<close>\<close>

text \<open>Lines 21-22: the output path.\<close>

definition saida_dmd :: "str \<Rightarrow> str" where
  "saida_dmd output = (if \<not> endswith output (lit ''.dmd'') then output @ lit ''.dmd'' else output)"

text \<open>Lines 34-56, the body of the loop, on the buffer \<open>dados_empacotados\<close>.\<close>

definition empacotar_arquivo :: "fs \<Rightarrow> bytes \<Rightarrow> str \<Rightarrow> exc + bytes" where
  "empacotar_arquivo f dados arquivo =
     (if \<not> existe f arquivo then Inr dados
      else
        case ler f arquivo of
          Inl e \<Rightarrow> Inl e
        | Inr conteudo \<Rightarrow>
            (case encode_utf8 (basename arquivo) of
               Inl e \<Rightarrow> Inl e
             | Inr nome_bytes0 \<Rightarrow>
                 (let nome_bytes =
                        (if length nome_bytes0 > 255 then take 255 nome_bytes0 else nome_bytes0)
                  in case bytearray_append dados (length nome_bytes) of
                       Inl e \<Rightarrow> Inl e
                     | Inr dados1 \<Rightarrow>
                         (case struct_pack_I (length conteudo) of
                            Inl e \<Rightarrow> Inl e
                          | Inr tam \<Rightarrow> Inr (dados1 @ nome_bytes @ tam @ conteudo)))))"

text \<open>Line 33, the loop.\<close>

fun empacotar_arquivos :: "fs \<Rightarrow> bytes \<Rightarrow> str list \<Rightarrow> exc + bytes" where
  "empacotar_arquivos f dados [] = Inr dados"
| "empacotar_arquivos f dados (arquivo # resto) =
     (case empacotar_arquivo f dados arquivo of
        Inl e \<Rightarrow> Inl e
      | Inr dados' \<Rightarrow> empacotar_arquivos f dados' resto)"

text \<open>Lines 26-58: the buffer \<open>dados_empacotados\<close> when the loop has ended.\<close>

definition dados_empacotados :: "fs \<Rightarrow> str list \<Rightarrow> exc + bytes" where
  "dados_empacotados f arquivos =
     (case struct_pack_I (length arquivos) of
        Inl e \<Rightarrow> Inl e
      | Inr cabecalho \<Rightarrow> empacotar_arquivos f cabecalho arquivos)"

text \<open>Line 71: \<open>taxa = (1 - tamanho_comprimido/tamanho_original) * 100\<close>.\<close>

definition calcular_taxa :: "nat \<Rightarrow> nat \<Rightarrow> exc + rat" where
  "calcular_taxa comprimido original =
     (case truediv comprimido original of
        Inl e \<Rightarrow> Inl e
      | Inr q \<Rightarrow> Inr (round64 (round64 (1 - q) * 100)))"

text \<open>The whole operation.\<close>

definition empacotar_comprimir ::
  "(bytes \<Rightarrow> bytes) \<Rightarrow> fs \<Rightarrow> str list \<Rightarrow> str \<Rightarrow> relatorio resultado \<times> fs" where
  "empacotar_comprimir compress f arquivos output0 =
     (let output = saida_dmd output0
      in case dados_empacotados f arquivos of
           Inl e \<Rightarrow> (Exit1 (Erro e), f)
         | Inr dados \<Rightarrow>
             (let dados_comprimidos = compress dados
              in case escrever f output (MAGIC_NUMBER @ dados_comprimidos) of
                   Inl e \<Rightarrow> (Exit1 (Erro e), f)
                 | Inr f' \<Rightarrow>
                     (case calcular_taxa (length dados_comprimidos) (length dados) of
                        Inl e \<Rightarrow> (Exit1 (Erro e), f')
                      | Inr taxa \<Rightarrow>
                          (Sucesso \<lparr>arquivo_criado = output,
                                    tamanho_original = length dados,
                                    tamanho_comprimido = length dados_comprimidos,
                                    taxa_1f = format_1f taxa\<rparr>, f'))))"

subsection \<open>\<open>Diamond.descomprimir_desempacotar\<close>\<close>

text \<open>
  Lines 118-140, the loop over \<open>range(num_arquivos)\<close> with the cursor \<open>pos\<close>. It returns the
  exception that stopped it, if any, and the filesystem with the files written so far.
\<close>

fun desempacotar_arquivos :: "nat \<Rightarrow> bytes \<Rightarrow> nat \<Rightarrow> str \<Rightarrow> fs \<Rightarrow> exc option \<times> fs" where
  "desempacotar_arquivos 0 dados pos pasta f = (None, f)"
| "desempacotar_arquivos (Suc n) dados pos pasta f =
     (if length dados \<le> pos then (Some IndexError, f)
      else
        let tamanho_nome = unat (dados ! pos);
            pos1 = pos + 1
        in case decode_utf8 (fatia dados pos1 (pos1 + tamanho_nome)) of
             Inl e \<Rightarrow> (Some e, f)
           | Inr nome \<Rightarrow>
               (let pos2 = pos1 + tamanho_nome
                in case struct_unpack_I (fatia dados pos2 (pos2 + 4)) of
                     Inl e \<Rightarrow> (Some e, f)
                   | Inr tamanho_conteudo \<Rightarrow>
                       (let pos3 = pos2 + 4;
                            conteudo = fatia dados pos3 (pos3 + tamanho_conteudo);
                            pos4 = pos3 + tamanho_conteudo
                        in case escrever f (join pasta nome) conteudo of
                             Inl e \<Rightarrow> (Some e, f)
                           | Inr f' \<Rightarrow> desempacotar_arquivos n dados pos4 pasta f')))"

text \<open>Lines 112-133: the count, then the loop.\<close>

definition desempacotar :: "bytes \<Rightarrow> str \<Rightarrow> fs \<Rightarrow> exc option \<times> fs" where
  "desempacotar dados pasta f =
     (case struct_unpack_I (fatia dados 0 4) of
        Inl e \<Rightarrow> (Some e, f)
      | Inr num_arquivos \<Rightarrow> desempacotar_arquivos num_arquivos dados 4 pasta f)"

text \<open>Lines 105-106: the destination directory.\<close>

definition destino :: "str \<Rightarrow> str option \<Rightarrow> str" where
  "destino arquivo_dmd pasta_destino =
     (case pasta_destino of
        None \<Rightarrow> splitext_root arquivo_dmd @ lit ''_extraido''
      | Some p \<Rightarrow> p)"

text \<open>The whole operation; on success it returns the destination directory.\<close>

definition descomprimir_desempacotar ::
  "(bytes \<Rightarrow> bytes option) \<Rightarrow> fs \<Rightarrow> str \<Rightarrow> str option \<Rightarrow> str resultado \<times> fs" where
  "descomprimir_desempacotar decompress f arquivo_dmd pasta_destino =
     (if \<not> existe f arquivo_dmd then (Exit1 ArquivoNaoEncontrado, f)
      else
        case ler f arquivo_dmd of
          Inl e \<Rightarrow> (Exit1 (Erro e), f)
        | Inr arq \<Rightarrow>
            (if take 4 arq \<noteq> MAGIC_NUMBER then (Exit1 FormatoInvalido, f)
             else
               case decompress (drop 4 arq) of
                 None \<Rightarrow> (Exit1 (Erro ZlibError), f)
               | Some dados \<Rightarrow>
                   (let pasta = destino arquivo_dmd pasta_destino
                    in case (if \<not> existe f pasta then makedirs f pasta else Inr f) of
                         Inl e \<Rightarrow> (Exit1 (Erro e), f)
                       | Inr f1 \<Rightarrow>
                           (case desempacotar dados pasta f1 of
                              (Some e, f2) \<Rightarrow> (Exit1 (Erro e), f2)
                            | (None, f2) \<Rightarrow> (Sucesso pasta, f2)))))"

subsection \<open>The layout of an archive, in the words of the specification\<close>

text \<open>
  The specification describes an archive as the magic constant followed by the compressed
  payload, and the payload as a four-byte unsigned file count followed by that many
  entries: for each embedded file, in supply order, the length of the name (one byte), the
  name, the length of the content (four bytes, unsigned) and the content, with nothing in
  between.
  These definitions follow that description; the theorems compare them with what
  \<open>empacotar_comprimir\<close> writes.
\<close>

definition u32 :: "nat \<Rightarrow> bytes" where
  "u32 n = [of_nat (n mod 256), of_nat (n div 256 mod 256), of_nat (n div 65536 mod 256),
            of_nat (n div 16777216 mod 256)]"

definition entry_layout :: "bytes \<times> bytes \<Rightarrow> bytes" where
  "entry_layout e =
     (case e of (name, content) \<Rightarrow>
        [of_nat (length name)] @ name @ u32 (length content) @ content)"

definition payload_layout :: "(bytes \<times> bytes) list \<Rightarrow> bytes" where
  "payload_layout entries = u32 (length entries) @ concat (map entry_layout entries)"

definition archive_layout :: "(bytes \<Rightarrow> bytes) \<Rightarrow> bytes \<Rightarrow> bytes" where
  "archive_layout compress payload = MAGIC_NUMBER @ compress payload"

text \<open>
  The embedded files of a list of paths, in supply order: for each path that exists, the
  UTF-8 encoding of its base name cut to 255 bytes, and its content.
\<close>

definition nome_utf8 :: "str \<Rightarrow> bytes" where
  "nome_utf8 p = (case encode_utf8 (basename p) of Inr b \<Rightarrow> take 255 b | Inl _ \<Rightarrow> [])"

definition conteudo_de :: "fs \<Rightarrow> str \<Rightarrow> bytes" where
  "conteudo_de f p = (case f p of Some (File c) \<Rightarrow> c | _ \<Rightarrow> [])"

definition embutidos :: "fs \<Rightarrow> str list \<Rightarrow> (bytes \<times> bytes) list" where
  "embutidos f arquivos = map (\<lambda>p. (nome_utf8 p, conteudo_de f p)) (filter (existe f) arquivos)"

text \<open>
  The percentage of the summary as the specification gives it, an exact number:
  \<open>(1 - compressed/original) * 100\<close>.
\<close>

definition percentagem :: "nat \<Rightarrow> nat \<Rightarrow> rat" where
  "percentagem comprimido original = (1 - of_nat comprimido / of_nat original) * 100"

subsection \<open>Files that the packer can embed\<close>

text \<open>
  A path that exists and names a regular file (so it does not end with a separator), with
  fewer than \<open>2^32\<close> bytes of content and a base name that encodes to at most 255 bytes
  of UTF-8.
\<close>

definition embutivel :: "fs \<Rightarrow> str \<Rightarrow> bool" where
  "embutivel f p \<longleftrightarrow>
     existe f p \<and> last p \<noteq> sep \<and>
     (case f p of Some (File c) \<Rightarrow> length c < 2 ^ 32 | _ \<Rightarrow> False) \<and>
     (case encode_utf8 (basename p) of Inr bs \<Rightarrow> length bs \<le> 255 | Inl _ \<Rightarrow> False)"

text \<open>
  A path that the loop of the packer passes without an exception: one that does not exist
  (it is skipped), or a regular file with fewer than \<open>2^32\<close> bytes of content and a base
  name that UTF-8 can encode.
\<close>

definition empacotavel :: "fs \<Rightarrow> str \<Rightarrow> bool" where
  "empacotavel f p \<longleftrightarrow>
     \<not> existe f p \<or>
     (case f p of Some (File c) \<Rightarrow> length c < 2 ^ 32 | _ \<Rightarrow> False) \<and>
     (case encode_utf8 (basename p) of Inr bs \<Rightarrow> True | Inl e \<Rightarrow> False)"

subsection \<open>A filesystem for the examples\<close>

text \<open>One file, \<open>docs/a.txt\<close>, with the content \<open>hi\<close>; no other path exists.\<close>

definition fs0 :: fs where
  "fs0 = Map.empty(lit ''docs/a.txt'' \<mapsto> File [0x68, 0x69])"

text \<open>
  A name of 255 code points whose encoding has 256 bytes: 254 letters \<open>a\<close> and an
  \<open>e\<close> with acute accent (\<open>U+00E9\<close>, two bytes in UTF-8).
\<close>

definition nome_longo :: str where
  "nome_longo = replicate 254 97 @ [233]"

text \<open>Two files with the same base name \<open>a\<close>, in the directories \<open>x\<close> and \<open>y\<close>.\<close>

definition fs_dup :: fs where
  "fs_dup = Map.empty(lit ''x/a'' \<mapsto> File [1], lit ''y/a'' \<mapsto> File [2])"

text \<open>
  One file \<open>a\<close> of 70 bytes, the bytes \<open>(i * 7 % 11) + 65\<close> for \<open>i\<close> from 0 to 69. The
  buffer that the packer builds for it has 80 bytes, and \<open>zlib.compress(_, level=9)\<close> of
  zlib 1.2.13 returns for that buffer the 29 bytes below; \<open>zlib_a\<close> stands for the
  compressor in this example only.
\<close>

definition conteudo_70 :: bytes where
  "conteudo_70 =
     concat (replicate 6 [65, 72, 68, 75, 71, 67, 74, 70, 66, 73, 69]) @ [65, 72, 68, 75]"

definition fs_a :: fs where
  "fs_a = Map.empty(lit ''a'' \<mapsto> File conteudo_70)"

definition zlib_a :: "bytes \<Rightarrow> bytes" where
  "zlib_a dados =
     [120, 218, 99, 100, 96, 96, 96, 76, 116, 3, 146, 142, 30, 46, 222, 238, 206, 94,
      110, 78, 158, 174, 20, 48, 1, 216, 224, 19, 206]"

section \<open>Properties\<close>

lemmas avaliar =
  lit_def sep_def extsep_def MAGIC_NUMBER_def struct_pack_I_def struct_unpack_I_def fatia_def
  bytearray_append_def encode_cp_def decode_utf8_def cont_def endswith_def basename_def
  join_def splitext_root_def existe_def ler_def escrever_def makedirs_def saida_dmd_def
  empacotar_arquivo_def dados_empacotados_def empacotar_comprimir_def desempacotar_def
  destino_def descomprimir_desempacotar_def fs0_def Let_def decode_nat.simps(2)
  calcular_taxa_def truediv_def

subsection \<open>Floating point: evaluation\<close>

lemma expoente_numeral:
  "expoente (numeral k) x =
     (if 2 \<le> x then expoente (pred_numeral k) (x / 2) + 1
      else if x < 1 then expoente (pred_numeral k) (x * 2) - 1
      else 0)"
  by (simp add: numeral_eq_Suc)

lemma floor_numeral_div: "\<lfloor>numeral a / numeral b :: rat\<rfloor> = numeral a div numeral b"
  using floor_divide_of_int_eq [of "numeral a" "numeral b", where ?'a = rat] by simp

lemmas flutuante =
  round64_def expoente_numeral pow2_def rhe_def format_1f_def Let_def floor_numeral_div

text \<open>
  Line 71 on the sizes 29 and 80: the quotient, the difference and the product are each
  rounded, and the product is below \<open>63.75\<close>.
\<close>

lemma taxa_29_80_passos:
  "round64 (29 / 80) = 6530219459687219 / 18014398509481984"
  "round64 (1 - 6530219459687219 / 18014398509481984) = 2871044762448691 / 4503599627370496"
  "round64 (2871044762448691 / 4503599627370496 * 100) = 8972014882652159 / 140737488355328"
  by (simp_all add: flutuante)

lemma taxa_29_80:
  "format_1f (round64 (round64 (1 - round64 (29 / 80)) * 100)) = (False, 637)"
  by (simp add: flutuante)

lemma length_conteudo_70: "length conteudo_70 = 70"
  by (simp add: conteudo_70_def length_concat sum_list_replicate)

subsection \<open>UTF-8: decoding what was encoded\<close>

text \<open>
  Every byte of an encoding is below 256, and the decoder reads back, sequence by sequence,
  the code points that the encoder wrote.
\<close>

lemma encode_cp_bytes: "encode_cp c = Some ns \<Longrightarrow> n \<in> set ns \<Longrightarrow> n < 256"
  unfolding encode_cp_def
  by (auto split: if_splits)

lemma decode2:
  "a < 32 \<Longrightarrow> b < 64 \<Longrightarrow> 0x80 \<le> a * 64 + b \<Longrightarrow>
   decode_nat ((0xC0 + a) # (0x80 + b) # r) = map_option ((#) (a * 64 + b)) (decode_nat r)"
  by (simp add: cont_def)

lemma decode3:
  "a < 16 \<Longrightarrow> b < 64 \<Longrightarrow> d < 64 \<Longrightarrow> 0x800 \<le> a * 4096 + b * 64 + d \<Longrightarrow>
   \<not> (0xD800 \<le> a * 4096 + b * 64 + d \<and> a * 4096 + b * 64 + d \<le> 0xDFFF) \<Longrightarrow>
   decode_nat ((0xE0 + a) # (0x80 + b) # (0x80 + d) # r) =
   map_option ((#) (a * 4096 + b * 64 + d)) (decode_nat r)"
  by (simp add: cont_def)

lemma decode4:
  "a < 8 \<Longrightarrow> b < 64 \<Longrightarrow> d < 64 \<Longrightarrow> e < 64 \<Longrightarrow>
   0x10000 \<le> a * 262144 + b * 4096 + d * 64 + e \<Longrightarrow>
   a * 262144 + b * 4096 + d * 64 + e < 0x110000 \<Longrightarrow>
   decode_nat ((0xF0 + a) # (0x80 + b) # (0x80 + d) # (0x80 + e) # r) =
   map_option ((#) (a * 262144 + b * 4096 + d * 64 + e)) (decode_nat r)"
  by (simp add: cont_def)

lemma split2: "c div 64 * 64 + c mod 64 = (c::nat)"
  by simp

lemma scale64: "(x::nat) * 4096 + y * 64 = (x * 64 + y) * 64"
  by simp

lemma scale4096: "(x::nat) * 262144 + y * 4096 = (x * 64 + y) * 4096"
  by simp

lemma split3: "c div 4096 * 4096 + c div 64 mod 64 * 64 + c mod 64 = (c::nat)"
proof -
  define q where "q = c div 64"
  have "c div 4096 = q div 64"
    using div_mult2_eq [of c 64 64] by (simp add: q_def)
  moreover have "q div 64 * 4096 + q mod 64 * 64 = q * 64"
    by (simp only: scale64 div_mult_mod_eq)
  moreover have "q * 64 + c mod 64 = c"
    unfolding q_def by (rule div_mult_mod_eq)
  ultimately show ?thesis
    unfolding q_def [symmetric] by (simp only:)
qed

lemma split4:
  "c div 262144 * 262144 + c div 4096 mod 64 * 4096 + c div 64 mod 64 * 64 + c mod 64 = (c::nat)"
proof -
  define q where "q = c div 4096"
  have "c div 262144 = q div 64"
    using div_mult2_eq [of c 4096 64] by (simp add: q_def)
  moreover have "q div 64 * 262144 + q mod 64 * 4096 = q * 4096"
    by (simp only: scale4096 div_mult_mod_eq)
  moreover have "q * 4096 + c div 64 mod 64 * 64 + c mod 64 = c"
    unfolding q_def by (rule split3)
  ultimately show ?thesis
    unfolding q_def [symmetric] by (simp only:)
qed

lemma unat_of_nat_byte: "n < 256 \<Longrightarrow> unat (of_nat n :: byte) = n"
  by (simp add: unat_of_nat)

lemma map_unat_of_nat: "\<forall>n \<in> set ns. n < 256 \<Longrightarrow> map unat (map of_nat ns :: bytes) = ns"
  by (induction ns) (simp_all add: unat_of_nat_byte)

lemma decode1:
  "a < 0x80 \<Longrightarrow> decode_nat (a # r) = map_option ((#) a) (decode_nat r)"
  by simp

declare decode_nat.simps(2) [simp del]

lemma decode_encode_cp:
  assumes "encode_cp c = Some ns"
  shows "decode_nat (ns @ r) = map_option ((#) c) (decode_nat r)"
proof -
  consider "c < 0x80" | "0x80 \<le> c" "c < 0x800"
    | "0x800 \<le> c" "c < 0x10000" "\<not> (0xD800 \<le> c \<and> c \<le> 0xDFFF)"
    | "0x10000 \<le> c" "c < 0x110000"
    using assms by (auto simp: encode_cp_def split: if_splits)
  then show ?thesis
  proof cases
    case 1
    then have "ns = [c]" using assms by (simp add: encode_cp_def)
    then show ?thesis using 1 by (simp add: decode1)
  next
    case 2
    define a b where "a = c div 64" and "b = c mod 64"
    have ns: "ns = [0xC0 + a, 0x80 + b]"
      using assms 2 by (simp add: encode_cp_def a_def b_def)
    have "a < 32" using 2 by (simp add: a_def less_mult_imp_div_less)
    moreover have "b < 64" by (simp add: b_def)
    moreover have c: "a * 64 + b = c" by (simp add: a_def b_def)
    ultimately have "decode_nat ((0xC0 + a) # (0x80 + b) # r) =
        map_option ((#) (a * 64 + b)) (decode_nat r)"
      using 2 by (intro decode2) simp_all
    then show ?thesis by (simp add: ns c)
  next
    case 3
    define a b d where "a = c div 4096" and "b = c div 64 mod 64" and "d = c mod 64"
    have ns: "ns = [0xE0 + a, 0x80 + b, 0x80 + d]"
      using assms 3 by (simp add: encode_cp_def a_def b_def d_def)
    have "a < 16" using 3 by (simp add: a_def less_mult_imp_div_less)
    moreover have "b < 64" "d < 64" by (simp_all add: b_def d_def)
    moreover have c: "a * 4096 + b * 64 + d = c"
      unfolding a_def b_def d_def by (rule split3)
    ultimately have "decode_nat ((0xE0 + a) # (0x80 + b) # (0x80 + d) # r) =
        map_option ((#) (a * 4096 + b * 64 + d)) (decode_nat r)"
      using 3 by (intro decode3) simp_all
    then show ?thesis by (simp add: ns c)
  next
    case 4
    define a b d e where "a = c div 262144" and "b = c div 4096 mod 64"
      and "d = c div 64 mod 64" and "e = c mod 64"
    have ns: "ns = [0xF0 + a, 0x80 + b, 0x80 + d, 0x80 + e]"
      using assms 4 by (simp add: encode_cp_def a_def b_def d_def e_def)
    have "a < 8" using 4 by (simp add: a_def less_mult_imp_div_less)
    moreover have "b < 64" "d < 64" "e < 64" by (simp_all add: b_def d_def e_def)
    moreover have c: "a * 262144 + b * 4096 + d * 64 + e = c"
      unfolding a_def b_def d_def e_def by (rule split4)
    ultimately have "decode_nat ((0xF0 + a) # (0x80 + b) # (0x80 + d) # (0x80 + e) # r) =
        map_option ((#) (a * 262144 + b * 4096 + d * 64 + e)) (decode_nat r)"
      using 4 by (intro decode4) simp_all
    then show ?thesis by (simp add: ns c)
  qed
qed

lemma decode_nat_encode:
  "encode_utf8 s = Inr bs \<Longrightarrow> decode_nat (map unat bs @ r) = map_option ((@) s) (decode_nat r)"
proof (induction s arbitrary: bs)
  case Nil
  then show ?case by (simp add: option.map_ident)
next
  case (Cons c cs)
  from Cons.prems obtain ns t where ns: "encode_cp c = Some ns"
    and t: "encode_utf8 cs = Inr t" and bs: "bs = map of_nat ns @ t"
    by (auto split: option.splits sum.splits)
  have "map unat bs = ns @ map unat t"
    using encode_cp_bytes [OF ns] map_unat_of_nat [of ns] by (simp add: bs)
  then have "decode_nat (map unat bs @ r) = decode_nat (ns @ (map unat t @ r))"
    by simp
  also have "\<dots> = map_option ((#) c) (decode_nat (map unat t @ r))"
    by (rule decode_encode_cp [OF ns])
  also have "\<dots> = map_option ((#) c) (map_option ((@) cs) (decode_nat r))"
    by (simp only: Cons.IH [OF t])
  also have "\<dots> = map_option ((@) (c # cs)) (decode_nat r)"
    by (cases "decode_nat r") simp_all
  finally show ?case .
qed

lemma decode_encode_utf8:
  assumes "encode_utf8 s = Inr bs"
  shows "decode_utf8 bs = Inr s"
proof -
  have "decode_nat (map unat bs @ []) = map_option ((@) s) (decode_nat [])"
    by (rule decode_nat_encode [OF assms])
  then show ?thesis by (simp add: decode_utf8_def)
qed

subsection \<open>The buffer that the packer builds\<close>

lemma struct_pack_I_length: "struct_pack_I n = Inr bs \<Longrightarrow> length bs = 4"
  by (auto simp: struct_pack_I_def split: if_splits)

lemma encode_utf8_Inl: "encode_utf8 s = Inl e \<Longrightarrow> e = UnicodeEncodeError"
  by (induction s) (auto split: option.splits sum.splits)

lemma empacotar_arquivo_length:
  "empacotar_arquivo f dados arquivo = Inr dados' \<Longrightarrow> length dados \<le> length dados'"
  by (auto simp: empacotar_arquivo_def bytearray_append_def Let_def
           split: if_splits sum.splits)

lemma empacotar_arquivos_length:
  "empacotar_arquivos f dados arquivos = Inr dados' \<Longrightarrow> length dados \<le> length dados'"
proof (induction arquivos arbitrary: dados)
  case Nil
  then show ?case by simp
next
  case (Cons a as)
  then show ?case
    by (auto split: sum.splits dest!: empacotar_arquivo_length) fastforce
qed

lemma dados_empacotados_length:
  "dados_empacotados f arquivos = Inr dados \<Longrightarrow> 4 \<le> length dados"
  by (auto simp: dados_empacotados_def split: sum.splits
           dest!: struct_pack_I_length empacotar_arquivos_length)

lemma of_nat_mod_256: "(of_nat (m mod 256) :: byte) = of_nat m"
  by (simp add: word_of_nat_eq_iff take_bit_eq_mod)

lemma struct_pack_I_u32: "struct_pack_I n = Inr t \<Longrightarrow> t = u32 n"
  by (auto simp: struct_pack_I_def u32_def of_nat_mod_256 split: if_splits)

lemma empacotar_arquivo_layout:
  "empacotar_arquivo f dados a = Inr d \<Longrightarrow>
   d = dados @ (if existe f a then entry_layout (nome_utf8 a, conteudo_de f a) else [])"
  by (auto simp: empacotar_arquivo_def entry_layout_def nome_utf8_def conteudo_de_def ler_def
        bytearray_append_def Let_def
      split: if_splits sum.splits option.splits node.splits dest!: struct_pack_I_u32)

lemma empacotar_arquivos_layout:
  "empacotar_arquivos f dados as = Inr d \<Longrightarrow>
   d = dados @ concat (map entry_layout (embutidos f as))"
proof (induction as arbitrary: dados)
  case Nil
  then show ?case by (simp add: embutidos_def)
next
  case (Cons a as)
  from Cons.prems obtain d1 where d1: "empacotar_arquivo f dados a = Inr d1"
    and rest: "empacotar_arquivos f d1 as = Inr d"
    by (auto split: sum.splits)
  from Cons.IH [OF rest] empacotar_arquivo_layout [OF d1]
  show ?case by (simp add: embutidos_def)
qed

lemma dados_empacotados_layout:
  "dados_empacotados f arquivos = Inr dados \<Longrightarrow>
   dados = u32 (length arquivos) @ concat (map entry_layout (embutidos f arquivos))"
  by (auto simp: dados_empacotados_def split: sum.splits
      dest!: struct_pack_I_u32 empacotar_arquivos_layout)

text \<open>The packer reads the filesystem only at the paths of its list.\<close>

lemma empacotar_arquivo_cong:
  "f1 arquivo = f2 arquivo \<Longrightarrow>
   empacotar_arquivo f1 dados arquivo = empacotar_arquivo f2 dados arquivo"
  by (simp add: empacotar_arquivo_def existe_def ler_def)

lemma empacotar_arquivos_cong:
  "\<forall>p \<in> set arquivos. f1 p = f2 p \<Longrightarrow>
   empacotar_arquivos f1 dados arquivos = empacotar_arquivos f2 dados arquivos"
  by (induction arquivos arbitrary: dados)
     (auto simp: empacotar_arquivo_cong [of f1 _ f2] split: sum.splits)

lemma dados_empacotados_cong:
  "\<forall>p \<in> set arquivos. f1 p = f2 p \<Longrightarrow>
   dados_empacotados f1 arquivos = dados_empacotados f2 arquivos"
  by (simp add: dados_empacotados_def empacotar_arquivos_cong [of _ f1 f2] split: sum.splits)

text \<open>What the packer returns once the buffer is built and the archive is written.\<close>

lemma empacotar_comprimir_escreve:
  assumes "dados_empacotados f arquivos = Inr dados"
    and "escrever f (saida_dmd output) (MAGIC_NUMBER @ compress dados) = Inr f'"
  shows "\<exists>r. empacotar_comprimir compress f arquivos output = (Sucesso r, f') \<and>
             arquivo_criado r = saida_dmd output \<and>
             tamanho_original r = length dados \<and>
             tamanho_comprimido r = length (compress dados) \<and>
             taxa_1f r =
               format_1f (round64 (round64 (1 - round64 (of_nat (length (compress dados)) /
                                                       of_nat (length dados))) * 100))"
proof -
  have "length dados \<noteq> 0"
    using dados_empacotados_length [OF assms(1)] by auto
  then show ?thesis
    by (simp add: empacotar_comprimir_def calcular_taxa_def truediv_def Let_def assms)
qed

subsection \<open>The rejection of a foreign file\<close>

text \<open>
  C3. When the input path exists and is a file whose first four bytes are not the magic
  number, the unpacker ends with \<open>sys.exit(1)\<close> after the message of an invalid format. The
  result holds for every decompressor, so none has been consulted, and the filesystem is
  the one it started from: no directory has been made.
\<close>

theorem C3_magic_rejection:
  assumes "existe f arquivo_dmd" and "f arquivo_dmd = Some (File arq)"
    and "take 4 arq \<noteq> MAGIC_NUMBER"
  shows "descomprimir_desempacotar decompress f arquivo_dmd pasta_destino =
         (Exit1 FormatoInvalido, f)"
  using assms by (simp add: descomprimir_desempacotar_def ler_def existe_def)

theorem C3_magic_rejection_witness:
  "existe (Map.empty(lit ''x.dmd'' \<mapsto> File [0x50, 0x4B, 3, 4, 0])) (lit ''x.dmd'') \<and>
   take 4 [0x50, 0x4B, 3, 4, 0] \<noteq> MAGIC_NUMBER \<and>
   descomprimir_desempacotar Some (Map.empty(lit ''x.dmd'' \<mapsto> File [0x50, 0x4B, 3, 4, 0]))
     (lit ''x.dmd'') None
   = (Exit1 FormatoInvalido, Map.empty(lit ''x.dmd'' \<mapsto> File [0x50, 0x4B, 3, 4, 0]))"
  using C3_magic_rejection [of "Map.empty(lit ''x.dmd'' \<mapsto> File [0x50, 0x4B, 3, 4, 0])"
      "lit ''x.dmd''" "[0x50, 0x4B, 3, 4, 0]" Some None]
  by (simp add: existe_def lit_def MAGIC_NUMBER_def)

subsection \<open>The buffer is never empty\<close>

text \<open>
  C9. Whenever the packer has built its buffer, the buffer has at least the four bytes of
  the count, also when no path of the list exists; and the packer never ends with a
  \<open>ZeroDivisionError\<close>, the one exception of the division of line 71.
\<close>

theorem C9_payload_nonempty:
  "(dados_empacotados f arquivos = Inr dados \<longrightarrow> 4 \<le> length dados) \<and>
   fst (empacotar_comprimir compress f arquivos output) \<noteq> Exit1 (Erro ZeroDivisionError)"
proof
  show "dados_empacotados f arquivos = Inr dados \<longrightarrow> 4 \<le> length dados"
    by (simp add: dados_empacotados_length)
next
  show "fst (empacotar_comprimir compress f arquivos output) \<noteq> Exit1 (Erro ZeroDivisionError)"
  proof (cases "dados_empacotados f arquivos")
    case (Inl e)
    have "empacotar_arquivos f d as = Inl ZeroDivisionError \<Longrightarrow> False" for d as
      by (induction as arbitrary: d)
         (auto simp: empacotar_arquivo_def ler_def bytearray_append_def struct_pack_I_def Let_def
               split: sum.splits if_splits option.splits node.splits dest!: encode_utf8_Inl)
    then have "e \<noteq> ZeroDivisionError"
      using Inl by (auto simp: dados_empacotados_def struct_pack_I_def split: if_splits)
    then show ?thesis
      using Inl by (simp add: empacotar_comprimir_def)
  next
    case (Inr dados')
    then have "length dados' \<noteq> 0"
      using dados_empacotados_length [of f arquivos dados'] by auto
    then show ?thesis
      using Inr
      by (auto simp: empacotar_comprimir_def escrever_def calcular_taxa_def truediv_def Let_def
          split: sum.splits if_splits)
  qed
qed

theorem C9_payload_nonempty_witness:
  "dados_empacotados Map.empty [lit ''x''] = Inr [1, 0, 0, 0] \<and>
   4 \<le> length ([1, 0, 0, 0] :: bytes) \<and>
   fst (empacotar_comprimir id Map.empty [lit ''x''] (lit ''p'')) \<noteq> Exit1 (Erro ZeroDivisionError)"
  using C9_payload_nonempty [of Map.empty "[lit ''x'']" "[1, 0, 0, 0]" id "lit ''p''"]
  by (simp add: avaliar)

subsection \<open>Determinism of the packer\<close>

text \<open>
  C10. Two runs of the packer with the same list, the same output path and the same
  compressor, on filesystems that agree at the paths of the list and at the path to be
  written, end the same way and leave the same node, hence the same archive bytes, at
  that path.
\<close>

theorem C10_deterministic:
  assumes "\<forall>p \<in> set arquivos. f1 p = f2 p"
    and "f1 (saida_dmd output) = f2 (saida_dmd output)"
  shows "fst (empacotar_comprimir compress f1 arquivos output) =
         fst (empacotar_comprimir compress f2 arquivos output) \<and>
         snd (empacotar_comprimir compress f1 arquivos output) (saida_dmd output) =
         snd (empacotar_comprimir compress f2 arquivos output) (saida_dmd output)"
  using assms dados_empacotados_cong [of arquivos f1 f2]
  by (auto simp: empacotar_comprimir_def escrever_def Let_def split: sum.splits)

theorem C10_deterministic_witness:
  "fs0 (lit ''docs/a.txt'') = (fs0(lit ''z'' \<mapsto> Dir)) (lit ''docs/a.txt'') \<and>
   fs0 (lit ''missing'') = (fs0(lit ''z'' \<mapsto> Dir)) (lit ''missing'') \<and>
   fs0 (saida_dmd (lit ''p'')) = (fs0(lit ''z'' \<mapsto> Dir)) (saida_dmd (lit ''p'')) \<and>
   fst (empacotar_comprimir id fs0 [lit ''docs/a.txt'', lit ''missing''] (lit ''p'')) =
   fst (empacotar_comprimir id (fs0(lit ''z'' \<mapsto> Dir))
          [lit ''docs/a.txt'', lit ''missing''] (lit ''p'')) \<and>
   snd (empacotar_comprimir id fs0 [lit ''docs/a.txt'', lit ''missing''] (lit ''p''))
     (saida_dmd (lit ''p'')) =
   snd (empacotar_comprimir id (fs0(lit ''z'' \<mapsto> Dir))
          [lit ''docs/a.txt'', lit ''missing''] (lit ''p'')) (saida_dmd (lit ''p''))"
proof -
  have h1: "\<forall>p \<in> set [lit ''docs/a.txt'', lit ''missing'']. fs0 p = (fs0(lit ''z'' \<mapsto> Dir)) p"
    by (simp add: lit_def)
  have h2: "fs0 (saida_dmd (lit ''p'')) = (fs0(lit ''z'' \<mapsto> Dir)) (saida_dmd (lit ''p''))"
    by (simp add: lit_def saida_dmd_def endswith_def)
  have a: "fs0 (lit ''docs/a.txt'') = (fs0(lit ''z'' \<mapsto> Dir)) (lit ''docs/a.txt'')"
    and b: "fs0 (lit ''missing'') = (fs0(lit ''z'' \<mapsto> Dir)) (lit ''missing'')"
    using h1 by simp_all
  from C10_deterministic [OF h1 h2, of id] a b h2 show ?thesis
    by blast
qed

subsection \<open>The loop of the unpacker on the layout of the packer\<close>

lemma u32_length: "length (u32 n) = 4"
  by (simp add: u32_def)

lemma bytes4:
  assumes "n < 2 ^ 32"
  shows "n mod 256 + 256 * (n div 256 mod 256) + 65536 * (n div 65536 mod 256) +
         16777216 * (n div 16777216 mod 256) = (n::nat)"
proof -
  define q1 q2 q3 where "q1 = n div 256" and "q2 = q1 div 256" and "q3 = q2 div 256"
  define m0 m1 m2 where "m0 = n mod 256" and "m1 = q1 mod 256" and "m2 = q2 mod 256"
  have e0: "n = m0 + 256 * q1" by (simp add: m0_def q1_def)
  have e1: "q1 = m1 + 256 * q2" by (simp add: m1_def q2_def)
  have e2: "q2 = m2 + 256 * q3" by (simp add: m2_def q3_def)
  have d2: "n div 65536 = q2"
    using div_mult2_eq [of n 256 256] by (simp add: q1_def q2_def)
  have d3: "n div 16777216 = q3"
    using div_mult2_eq [of n 65536 256] by (simp add: d2 q3_def)
  have "q3 < 256"
    using assms unfolding d3 [symmetric] by (simp add: less_mult_imp_div_less)
  then have m3: "q3 mod 256 = q3" by simp
  have "m0 + 256 * m1 + 65536 * m2 + 16777216 * q3 = n"
    using e0 e1 e2 by linarith
  then show ?thesis
    unfolding d2 d3 m3 m0_def m1_def m2_def q1_def .
qed

lemma struct_unpack_u32: "n < 2 ^ 32 \<Longrightarrow> struct_unpack_I (u32 n) = Inr n"
  using bytes4 [of n]
  by (simp add: struct_unpack_I_def u32_def unat_of_nat_byte)

lemma fatia_append: "fatia (xs @ ys @ zs) (length xs) (length xs + length ys) = ys"
  by (simp add: fatia_def)

text \<open>One turn of the loop of the unpacker, with its four reads named.\<close>

lemma desempacotar_passo:
  assumes "pos < length dados" and "unat (dados ! pos) = tn"
    and "fatia dados (pos + 1) (pos + 1 + tn) = nb"
    and "fatia dados (pos + 1 + tn) (pos + 1 + tn + 4) = t4"
    and "struct_unpack_I t4 = Inr tc"
    and "fatia dados (pos + 1 + tn + 4) (pos + 1 + tn + 4 + tc) = c"
  shows "desempacotar_arquivos (Suc n) dados pos pasta f =
         (case decode_utf8 nb of
            Inl e \<Rightarrow> (Some e, f)
          | Inr nome \<Rightarrow>
              (case escrever f (join pasta nome) c of
                 Inl e \<Rightarrow> (Some e, f)
               | Inr f' \<Rightarrow> desempacotar_arquivos n dados (pos + 1 + tn + 4 + tc) pasta f'))"
  using assms by (simp add: Let_def split: sum.splits)

text \<open>One turn of the loop of the unpacker, on an entry laid out as the packer writes it.\<close>

lemma desempacotar_entry:
  assumes "length nm < 256" and "length c < 2 ^ 32"
  shows "desempacotar_arquivos (Suc n) (pre @ entry_layout (nm, c) @ resto) (length pre) pasta f =
         (case decode_utf8 nm of
            Inl e \<Rightarrow> (Some e, f)
          | Inr nome \<Rightarrow>
              (case escrever f (join pasta nome) c of
                 Inl e \<Rightarrow> (Some e, f)
               | Inr f' \<Rightarrow>
                   desempacotar_arquivos n (pre @ entry_layout (nm, c) @ resto)
                     (length (pre @ entry_layout (nm, c))) pasta f'))"
proof -
  let ?dados = "pre @ entry_layout (nm, c) @ resto"
  have tn: "unat (?dados ! length pre) = length nm"
    using assms(1) by (simp add: entry_layout_def nth_append unat_of_nat_byte)
  have nome: "fatia ?dados (length pre + 1) (length pre + 1 + length nm) = nm"
    using fatia_append [of "pre @ [of_nat (length nm)]" nm "u32 (length c) @ c @ resto"]
    by (simp add: entry_layout_def add_ac)
  have tam: "fatia ?dados (length pre + 1 + length nm) (length pre + 1 + length nm + 4) =
             u32 (length c)"
    using fatia_append [of "pre @ [of_nat (length nm)] @ nm" "u32 (length c)" "c @ resto"]
    by (simp add: entry_layout_def u32_length add_ac)
  have cont: "fatia ?dados (length pre + 1 + length nm + 4)
                (length pre + 1 + length nm + 4 + length c) = c"
    using fatia_append [of "pre @ [of_nat (length nm)] @ nm @ u32 (length c)" c resto]
    by (simp add: entry_layout_def u32_length add_ac)
  have len: "length (pre @ entry_layout (nm, c)) = length pre + 1 + length nm + 4 + length c"
    by (simp add: entry_layout_def u32_length add_ac)
  have pos': "length pre < length ?dados"
    by (simp add: entry_layout_def)
  show ?thesis
    unfolding len
    by (rule desempacotar_passo [OF pos' tn nome tam struct_unpack_u32 [OF assms(2)] cont])
qed

subsection \<open>More on the two operations\<close>

lemma struct_unpack_I_short: "length bs \<noteq> 4 \<Longrightarrow> struct_unpack_I bs = Inl StructError"
  by (auto simp: struct_unpack_I_def split: list.splits)

lemma encode_ascii:
  "\<forall>c \<in> set s. c < 0x80 \<Longrightarrow>
   encode_utf8 (s @ t) = (case encode_utf8 t of Inl e \<Rightarrow> Inl e | Inr r \<Rightarrow> Inr (map of_nat s @ r))"
  by (induction s) (auto simp: encode_cp_def split: sum.splits)

lemma decode_ascii:
  "\<forall>c \<in> set s. c < 0x80 \<Longrightarrow> decode_nat (s @ r) = map_option ((@) s) (decode_nat r)"
proof (induction s)
  case Nil
  then show ?case by (cases "decode_nat r") simp_all
next
  case (Cons a s)
  then show ?case by (cases "decode_nat r") (simp_all add: decode1)
qed

lemma basename_no_sep:
  assumes "sep \<notin> set p"
  shows "basename p = p"
proof -
  have "takeWhile (\<lambda>c. c \<noteq> sep) (rev p) = rev p"
    using assms by (intro takeWhile_eq_all_conv [THEN iffD2]) auto
  then show ?thesis
    unfolding basename_def by (simp only: rev_rev_ident)
qed

lemma empacotar_arquivo_ok:
  assumes "existe f p" and "f p = Some (File c)" and "length c < 2 ^ 32"
    and "encode_utf8 (basename p) = Inr bs"
  shows "empacotar_arquivo f dados p = Inr (dados @ entry_layout (take 255 bs, c))"
  using assms
  by (simp add: empacotar_arquivo_def ler_def existe_def bytearray_append_def struct_pack_I_def
      entry_layout_def u32_def of_nat_mod_256 min_def)

lemma descomprimir_payload:
  assumes "existe f a" and "f a = Some (File (MAGIC_NUMBER @ z))" and "decompress z = Some dados"
  shows "descomprimir_desempacotar decompress f a pd =
         (case (if \<not> existe f (destino a pd) then makedirs f (destino a pd) else Inr f) of
            Inl e \<Rightarrow> (Exit1 (Erro e), f)
          | Inr f1 \<Rightarrow>
              (case desempacotar dados (destino a pd) f1 of
                 (Some e, f2) \<Rightarrow> (Exit1 (Erro e), f2)
               | (None, f2) \<Rightarrow> (Sucesso (destino a pd), f2)))"
  using assms
  by (simp add: descomprimir_desempacotar_def ler_def existe_def MAGIC_NUMBER_def Let_def)

subsection \<open>The count of the header\<close>

text \<open>
  C1. The packer writes \<open>len(arquivos)\<close> into the header before it looks at any
  path, and a path that does not exist adds no entry. On the list of the example, one file
  and one missing path, the header says 2 and the buffer holds one entry; the unpacker,
  given this buffer, writes the one file and is then stopped by an \<open>IndexError\<close> at the
  read of the second name length.
\<close>

theorem C1_count_with_missing_path:
  "dados_empacotados fs0 [lit ''docs/a.txt'', lit ''missing''] =
     Inr [2, 0, 0, 0, 5, 97, 46, 116, 120, 116, 2, 0, 0, 0, 0x68, 0x69] \<and>
   embutidos fs0 [lit ''docs/a.txt'', lit ''missing''] = [([97, 46, 116, 120, 116], [0x68, 0x69])] \<and>
   desempacotar [2, 0, 0, 0, 5, 97, 46, 116, 120, 116, 2, 0, 0, 0, 0x68, 0x69] (lit ''out'') fs0 =
     (Some IndexError, fs0(lit ''out/a.txt'' \<mapsto> File [0x68, 0x69]))"
  by (simp add: avaliar embutidos_def nome_utf8_def conteudo_de_def)

subsection \<open>The layout of the archive\<close>

text \<open>
  The buffer of the example is the layout of no list of entries: a count of 2 needs two
  entries of at least five bytes each, and the twelve bytes after the count leave the first
  entry a name of at most two bytes, where its name length says 5.
\<close>

lemma payload_sem_entradas:
  "payload_layout es \<noteq> [2, 0, 0, 0, 5, 97, 46, 116, 120, 116, 2, 0, 0, 0, 0x68, 0x69]"
proof
  assume a: "payload_layout es = [2, 0, 0, 0, 5, 97, 46, 116, 120, 116, 2, 0, 0, 0, 0x68, 0x69]"
  show False
  proof (cases es)
    case Nil
    with a show False by (simp add: payload_layout_def u32_def)
  next
    case (Cons e1 r)
    show False
    proof (cases r)
      case Nil
      with a Cons show False by (simp add: payload_layout_def u32_def)
    next
      case (Cons e2 r2)
      obtain n1 c1 where e1: "e1 = (n1, c1)" by (cases e1)
      obtain n2 c2 where e2: "e2 = (n2, c2)" by (cases e2)
      have "length (payload_layout es) = 16"
        by (simp add: a)
      then have "length n1 \<le> 2"
        using \<open>es = e1 # r\<close> Cons
        by (simp add: payload_layout_def u32_length entry_layout_def e1 e2)
      then have l: "length n1 = 0 \<or> length n1 = 1 \<or> length n1 = 2"
        by arith
      have "payload_layout es ! 4 = of_nat (length n1)"
        using \<open>es = e1 # r\<close>
        by (simp add: payload_layout_def entry_layout_def e1 nth_append u32_length)
      then have b: "(of_nat (length n1) :: byte) = 5"
        by (simp add: a)
      from l show False
      proof (elim disjE)
        assume "length n1 = 0" with b show False by simp
      next
        assume "length n1 = 1" with b show False by simp
      next
        assume "length n1 = 2" with b show False by simp
      qed
    qed
  qed
qed

text \<open>
  C6. The archive is the magic number followed by the compressed buffer, and the entries
  of the buffer are laid out as the claim says, but the file count in front of them is
  \<open>len(arquivos)\<close>, written before the loop skips the paths that do not exist. On the
  list of one file and one missing path, whatever the compressor, the archive written
  holds the compressed form of a buffer whose count is 2 and which has one entry; the
  layout of the claim for the one embedded file has the count 1; and the buffer written is
  the layout of no list of entries at all.
\<close>

theorem C6_layout_with_missing_path:
  "snd (empacotar_comprimir compress fs0 [lit ''docs/a.txt'', lit ''missing''] (lit ''p''))
     (lit ''p.dmd'') =
     Some (File (MAGIC_NUMBER @
                 compress [2, 0, 0, 0, 5, 97, 46, 116, 120, 116, 2, 0, 0, 0, 0x68, 0x69])) \<and>
   archive_layout compress (payload_layout (embutidos fs0 [lit ''docs/a.txt'', lit ''missing''])) =
     MAGIC_NUMBER @ compress [1, 0, 0, 0, 5, 97, 46, 116, 120, 116, 2, 0, 0, 0, 0x68, 0x69] \<and>
   (\<forall>es. payload_layout es \<noteq> [2, 0, 0, 0, 5, 97, 46, 116, 120, 116, 2, 0, 0, 0, 0x68, 0x69])"
proof -
  have d: "dados_empacotados fs0 [lit ''docs/a.txt'', lit ''missing''] =
      Inr [2, 0, 0, 0, 5, 97, 46, 116, 120, 116, 2, 0, 0, 0, 0x68, 0x69]"
    by (simp add: avaliar)
  have w: "escrever fs0 (saida_dmd (lit ''p'')) arq = Inr (fs0(lit ''p.dmd'' \<mapsto> File arq))" for arq
    by (simp add: avaliar)
  from empacotar_comprimir_escreve [of fs0 _ _ "lit ''p''" compress, OF d w]
  have "snd (empacotar_comprimir compress fs0 [lit ''docs/a.txt'', lit ''missing''] (lit ''p'')) =
      fs0(lit ''p.dmd'' \<mapsto>
        File (MAGIC_NUMBER @ compress [2, 0, 0, 0, 5, 97, 46, 116, 120, 116, 2, 0, 0, 0, 0x68, 0x69]))"
    by auto
  moreover have "payload_layout (embutidos fs0 [lit ''docs/a.txt'', lit ''missing'']) =
      [1, 0, 0, 0, 5, 97, 46, 116, 120, 116, 2, 0, 0, 0, 0x68, 0x69]"
    by (simp add: avaliar payload_layout_def embutidos_def entry_layout_def u32_def
        nome_utf8_def conteudo_de_def)
  ultimately show ?thesis
    by (simp add: archive_layout_def payload_sem_entradas)
qed

subsection \<open>Reads beyond the buffer\<close>

text \<open>
  C4, as the claim states it, fails: a declared content length of 10 with 3 bytes left is
  read as the 3 bytes, the file is written with them and the loop ends without an error.
\<close>

theorem C4_short_content_counterexample:
  "desempacotar [1, 0, 0, 0, 1, 97, 10, 0, 0, 0, 120, 121, 122] (lit ''d'') Map.empty =
   (None, Map.empty(lit ''d/a'' \<mapsto> File [120, 121, 122]))"
  by (simp add: avaliar)

text \<open>
  C4, amended. There is no check of the cursor against the buffer; what happens is what
  Python's indexing and slicing do. A buffer too short for the file count stops the
  unpacker with \<open>struct.error\<close>; a cursor at or past the end at the read of a name length
  stops it with \<open>IndexError\<close>; fewer than four bytes left at the read of a content length
  (also after a name that was cut short by the end of the buffer) stop it with
  \<open>struct.error\<close>. A content that the buffer cannot fill is read as the bytes that are
  left and written; when it is the last entry, the loop ends normally.
\<close>

theorem C4_reads_beyond_buffer:
  "(length dados < 4 \<longrightarrow> desempacotar dados pasta f = (Some StructError, f)) \<and>
   (length dados \<le> pos \<longrightarrow>
      desempacotar_arquivos (Suc n) dados pos pasta f = (Some IndexError, f)) \<and>
   (pos < length dados \<and>
    decode_utf8 (fatia dados (pos + 1) (pos + 1 + unat (dados ! pos))) = Inr nome \<and>
    length dados < pos + 1 + unat (dados ! pos) + 4 \<longrightarrow>
      desempacotar_arquivos (Suc n) dados pos pasta f = (Some StructError, f)) \<and>
   (pos < length dados \<and>
    decode_utf8 (fatia dados (pos + 1) (pos + 1 + unat (dados ! pos))) = Inr nome \<and>
    struct_unpack_I (fatia dados (pos + 1 + unat (dados ! pos))
                      (pos + 1 + unat (dados ! pos) + 4)) = Inr tc \<and>
    length dados < pos + 1 + unat (dados ! pos) + 4 + tc \<and>
    escrever f (join pasta nome) (drop (pos + 1 + unat (dados ! pos) + 4) dados) = Inr f' \<longrightarrow>
      desempacotar_arquivos (Suc 0) dados pos pasta f = (None, f'))"
proof (intro conjI impI)
  assume "length dados < 4"
  then have "struct_unpack_I (fatia dados 0 4) = Inl StructError"
    by (intro struct_unpack_I_short) (simp add: fatia_def)
  then show "desempacotar dados pasta f = (Some StructError, f)"
    by (simp add: desempacotar_def)
next
  assume "length dados \<le> pos"
  then show "desempacotar_arquivos (Suc n) dados pos pasta f = (Some IndexError, f)"
    by simp
next
  assume a: "pos < length dados \<and>
    decode_utf8 (fatia dados (pos + 1) (pos + 1 + unat (dados ! pos))) = Inr nome \<and>
    length dados < pos + 1 + unat (dados ! pos) + 4"
  then have "struct_unpack_I (fatia dados (pos + 1 + unat (dados ! pos))
      (pos + 1 + unat (dados ! pos) + 4)) = Inl StructError"
    by (intro struct_unpack_I_short) (auto simp: fatia_def)
  with a show "desempacotar_arquivos (Suc n) dados pos pasta f = (Some StructError, f)"
    by (simp add: Let_def)
next
  assume a: "pos < length dados \<and>
    decode_utf8 (fatia dados (pos + 1) (pos + 1 + unat (dados ! pos))) = Inr nome \<and>
    struct_unpack_I (fatia dados (pos + 1 + unat (dados ! pos))
                      (pos + 1 + unat (dados ! pos) + 4)) = Inr tc \<and>
    length dados < pos + 1 + unat (dados ! pos) + 4 + tc \<and>
    escrever f (join pasta nome) (drop (pos + 1 + unat (dados ! pos) + 4) dados) = Inr f'"
  then have "fatia dados (pos + 1 + unat (dados ! pos) + 4)
      (pos + 1 + unat (dados ! pos) + 4 + tc) = drop (pos + 1 + unat (dados ! pos) + 4) dados"
    by (auto simp: fatia_def)
  with a show "desempacotar_arquivos (Suc 0) dados pos pasta f = (None, f')"
    by (simp add: Let_def)
qed

theorem C4_reads_beyond_buffer_witness:
  "desempacotar_arquivos (Suc 0) [1, 0, 0, 0, 1, 97, 10, 0, 0, 0, 120, 121, 122] 4 (lit ''d'')
     Map.empty = (None, Map.empty(lit ''d/a'' \<mapsto> File [120, 121, 122]))"
  using C4_reads_beyond_buffer [of "[1, 0, 0, 0, 1, 97, 10, 0, 0, 0, 120, 121, 122]" "lit ''d''"
      Map.empty 4 0 "lit ''a''" 10 "Map.empty(lit ''d/a'' \<mapsto> File [120, 121, 122])"]
  by (simp add: avaliar)

subsection \<open>Names longer than 255 bytes\<close>

lemma desempacotar_payload_layout:
  assumes "length es < 2 ^ 32"
  shows "desempacotar (payload_layout es) pasta g =
         desempacotar_arquivos (length es) (payload_layout es) 4 pasta g"
proof -
  have "fatia (payload_layout es) 0 4 = u32 (length es)"
    using fatia_append [of "[]" "u32 (length es)" "concat (map entry_layout es)"]
    by (simp add: payload_layout_def u32_length)
  then show ?thesis
    by (simp add: desempacotar_def struct_unpack_u32 [OF assms])
qed

lemma nome_longo_chars: "sep \<notin> set nome_longo" "0 \<notin> set nome_longo" "nome_longo \<noteq> []"
  by (auto simp: nome_longo_def sep_def)

lemma encode_nome_longo: "encode_utf8 nome_longo = Inr (replicate 254 97 @ [0xC3, 0xA9])"
proof -
  have "encode_utf8 [233] = Inr [0xC3, 0xA9]"
    by (simp add: encode_cp_def)
  then show ?thesis
    unfolding nome_longo_def by (subst encode_ascii) simp_all
qed

lemma decode_cut: "decode_utf8 (replicate 254 97 @ [0xC3]) = Inl UnicodeDecodeError"
proof -
  have "decode_nat [0xC3] = None"
    by (simp add: decode_nat.simps(2))
  then have "decode_nat (replicate 254 97 @ [0xC3]) = None"
    by (subst decode_ascii) simp_all
  then show ?thesis
    by (simp add: decode_utf8_def)
qed

lemma dados_nome_longo:
  "dados_empacotados (Map.empty(nome_longo \<mapsto> File [])) [nome_longo] =
     Inr (payload_layout [(replicate 254 97 @ [0xC3], [])])"
proof -
  let ?f = "Map.empty(nome_longo \<mapsto> File [])"
  have e: "existe ?f nome_longo"
    using nome_longo_chars by (simp add: existe_def)
  have b: "encode_utf8 (basename nome_longo) = Inr (replicate 254 97 @ [0xC3, 0xA9])"
    using nome_longo_chars by (simp add: basename_no_sep encode_nome_longo)
  have "empacotar_arquivo ?f (u32 1) nome_longo =
        Inr (u32 1 @ entry_layout (take 255 (replicate 254 97 @ [0xC3, 0xA9]), []))"
    by (rule empacotar_arquivo_ok [OF e _ _ b]) simp_all
  then show ?thesis
    by (simp add: dados_empacotados_def struct_pack_I_def u32_def payload_layout_def)
qed

lemma empacotar_nome_longo:
  "snd (empacotar_comprimir id (Map.empty(nome_longo \<mapsto> File [])) [nome_longo] (lit ''p'')) =
   (Map.empty(nome_longo \<mapsto> File []))(lit ''p.dmd'' \<mapsto>
      File (MAGIC_NUMBER @ payload_layout [(replicate 254 97 @ [0xC3], [])]))"
proof -
  let ?f = "Map.empty(nome_longo \<mapsto> File [])"
  have e: "existe ?f nome_longo"
    using nome_longo_chars by (simp add: existe_def)
  have b: "encode_utf8 (basename nome_longo) = Inr (replicate 254 97 @ [0xC3, 0xA9])"
    using nome_longo_chars by (simp add: basename_no_sep encode_nome_longo)
  have "empacotar_arquivo ?f (u32 1) nome_longo =
        Inr (u32 1 @ entry_layout (take 255 (replicate 254 97 @ [0xC3, 0xA9]), []))"
    by (rule empacotar_arquivo_ok [OF e _ _ b]) simp_all
  then have d: "dados_empacotados ?f [nome_longo] =
      Inr (payload_layout [(replicate 254 97 @ [0xC3], [])])"
    by (simp add: dados_empacotados_def struct_pack_I_def u32_def payload_layout_def)
  have ne: "lit ''p.dmd'' \<noteq> nome_longo"
    by (auto simp: nome_longo_def lit_def dest: arg_cong [where f = length])
  have o: "saida_dmd (lit ''p'') = lit ''p.dmd''"
    by (simp add: saida_dmd_def endswith_def lit_def)
  have w: "escrever ?f (saida_dmd (lit ''p'')) arq = Inr (?f(lit ''p.dmd'' \<mapsto> File arq))" for arq
    unfolding o using ne by (simp add: escrever_def) (simp add: lit_def sep_def)
  from empacotar_comprimir_escreve [OF d w, of id] show ?thesis
    by auto
qed

text \<open>
  The unpacker, given the archive that the packer wrote for the file of that name, is
  stopped by \<open>UnicodeDecodeError\<close>.
\<close>

lemma descomprimir_nome_longo:
  "fst (descomprimir_desempacotar Some
         (snd (empacotar_comprimir id (Map.empty(nome_longo \<mapsto> File [])) [nome_longo]
                (lit ''p'')))
         (lit ''p.dmd'') None) = Exit1 (Erro UnicodeDecodeError)"
proof -
  let ?dados = "payload_layout [(replicate 254 97 @ [0xC3], [])]"
  let ?f1 = "(Map.empty(nome_longo \<mapsto> File []))(lit ''p.dmd'' \<mapsto> File (MAGIC_NUMBER @ ?dados))"
  have loop: "desempacotar ?dados pasta g = (Some UnicodeDecodeError, g)" for pasta g
  proof -
    have p: "?dados = u32 (Suc 0) @ entry_layout (replicate 254 97 @ [0xC3], []) @ []"
      by (simp add: payload_layout_def)
    have "desempacotar ?dados pasta g =
        desempacotar_arquivos (length [(replicate 254 97 @ [0xC3] :: bytes, [] :: bytes)])
          ?dados 4 pasta g"
      by (rule desempacotar_payload_layout) simp
    also have "\<dots> = desempacotar_arquivos (Suc 0) ?dados 4 pasta g"
      by (simp only: length_Cons list.size)
    also have "\<dots> = desempacotar_arquivos (Suc 0)
        (u32 (Suc 0) @ entry_layout (replicate 254 97 @ [0xC3], []) @ [])
        (length (u32 (Suc 0))) pasta g"
      by (simp only: p u32_length)
    also have "\<dots> = (Some UnicodeDecodeError, g)"
      by (subst desempacotar_entry) (simp_all add: decode_cut)
    finally show ?thesis .
  qed
  have ex: "existe ?f1 (lit ''p.dmd'')"
    by (simp add: existe_def lit_def)
  have "descomprimir_desempacotar Some ?f1 (lit ''p.dmd'') None =
        (case (if \<not> existe ?f1 (destino (lit ''p.dmd'') None)
               then makedirs ?f1 (destino (lit ''p.dmd'') None) else Inr ?f1) of
           Inl e \<Rightarrow> (Exit1 (Erro e), ?f1)
         | Inr f1 \<Rightarrow>
             (case desempacotar ?dados (destino (lit ''p.dmd'') None) f1 of
                (Some e, f2) \<Rightarrow> (Exit1 (Erro e), f2)
              | (None, f2) \<Rightarrow> (Sucesso (destino (lit ''p.dmd'') None), f2)))"
    by (rule descomprimir_payload [OF ex]) simp_all
  moreover have "destino (lit ''p.dmd'') None = lit ''p_extraido''"
    by (simp add: destino_def splitext_root_def basename_def lit_def sep_def extsep_def)
  moreover have "makedirs ?f1 (lit ''p_extraido'') = Inr (?f1(lit ''p_extraido'' \<mapsto> Dir))"
    by (simp add: makedirs_def lit_def)
  ultimately have "fst (descomprimir_desempacotar Some ?f1 (lit ''p.dmd'') None) =
      Exit1 (Erro UnicodeDecodeError)"
    by (simp add: loop)
  then show ?thesis
    by (simp only: empacotar_nome_longo)
qed

text \<open>
  Lines 44-46 and 53-54 in general: for a file whose base name has more than 255 bytes in
  UTF-8, the entry that the packer appends starts with the name length 255, followed by
  the first 255 bytes of the encoding.
\<close>

lemma empacotar_arquivo_trunca:
  assumes "existe f arquivo" and "f arquivo = Some (File c)" and "length c < 2 ^ 32"
    and "encode_utf8 (basename arquivo) = Inr bs" and "255 < length bs"
  shows "empacotar_arquivo f dados arquivo =
           Inr (dados @ [255] @ take 255 bs @ u32 (length c) @ c)"
    and "length (take 255 bs) = 255"
proof -
  show "empacotar_arquivo f dados arquivo = Inr (dados @ [255] @ take 255 bs @ u32 (length c) @ c)"
    using empacotar_arquivo_ok [OF assms(1-4), of dados] assms(5)
    by (simp add: entry_layout_def)
  show "length (take 255 bs) = 255"
    using assms(5) by simp
qed

text \<open>
  C5. The packer cuts the encoded name by bytes (line 46), although the comment of line 42
  speaks of 255 characters, and nothing keeps the cut off a multi-byte sequence. The name
  of 254 letters and an accented letter has 255 characters and 256 bytes in UTF-8; the
  packer writes the name length 255 and the first 255 bytes, which end with the lead byte
  \<open>0xC3\<close> of the accented letter; these bytes are not UTF-8, and the unpacker, given
  the archive that the packer wrote, raises \<open>UnicodeDecodeError\<close> at line 124 and
  exits with status 1.
\<close>

theorem C5_truncated_name_rejected:
  "length nome_longo = 255 \<and>
   encode_utf8 (basename nome_longo) = Inr (replicate 254 97 @ [0xC3, 0xA9]) \<and>
   dados_empacotados (Map.empty(nome_longo \<mapsto> File [])) [nome_longo] =
     Inr ([1, 0, 0, 0, 255] @ replicate 254 97 @ [0xC3, 0, 0, 0, 0]) \<and>
   decode_utf8 (replicate 254 97 @ [0xC3]) = Inl UnicodeDecodeError \<and>
   fst (descomprimir_desempacotar Some
         (snd (empacotar_comprimir id (Map.empty(nome_longo \<mapsto> File [])) [nome_longo]
                (lit ''p'')))
         (lit ''p.dmd'') None) = Exit1 (Erro UnicodeDecodeError)"
proof (intro conjI)
  show "length nome_longo = 255"
    by (simp add: nome_longo_def)
  show "encode_utf8 (basename nome_longo) = Inr (replicate 254 97 @ [0xC3, 0xA9])"
    using nome_longo_chars by (simp add: basename_no_sep encode_nome_longo)
  show "dados_empacotados (Map.empty(nome_longo \<mapsto> File [])) [nome_longo] =
     Inr ([1, 0, 0, 0, 255] @ replicate 254 97 @ [0xC3, 0, 0, 0, 0])"
    by (simp add: dados_nome_longo payload_layout_def entry_layout_def u32_def)
  show "decode_utf8 (replicate 254 97 @ [0xC3]) = Inl UnicodeDecodeError"
    by (rule decode_cut)
  show "fst (descomprimir_desempacotar Some
         (snd (empacotar_comprimir id (Map.empty(nome_longo \<mapsto> File [])) [nome_longo]
                (lit ''p'')))
         (lit ''p.dmd'') None) = Exit1 (Erro UnicodeDecodeError)"
    by (rule descomprimir_nome_longo)
qed

subsection \<open>Base names, joined paths and the files of a list\<close>

lemma basename_subset: "set (basename p) \<subseteq> set p"
  using set_takeWhileD [of _ "\<lambda>c. c \<noteq> sep" "rev p"] by (auto simp: basename_def)

lemma basename_sep: "sep \<notin> set (basename p)"
  using set_takeWhileD [of sep "\<lambda>c. c \<noteq> sep" "rev p"] by (auto simp: basename_def)

lemma basename_nonempty:
  assumes "p \<noteq> []" and "last p \<noteq> sep"
  shows "basename p \<noteq> []"
  using assms by (simp add: basename_def takeWhile_eq_Nil_iff hd_rev)

text \<open>What \<open>os.path.join\<close> puts before a relative name.\<close>

lemma join_relative:
  assumes "b \<noteq> []" and "sep \<notin> set b"
  shows "join d b = (if d = [] \<or> last d = sep then d else d @ [sep]) @ b"
proof -
  have "hd b \<noteq> sep"
    using assms by (cases b) auto
  then show ?thesis
    by (simp add: join_def)
qed

lemma join_inj:
  assumes "b \<noteq> []" "sep \<notin> set b" "b' \<noteq> []" "sep \<notin> set b'" "join d b = join d b'"
  shows "b = b'"
  using assms by (simp add: join_relative)

lemma join_not_dir: "b \<noteq> [] \<Longrightarrow> sep \<notin> set b \<Longrightarrow> join d b \<noteq> d"
  by (simp add: join_relative)

lemma escrever_join:
  assumes "b \<noteq> []" and "sep \<notin> set b" and "0 \<notin> set b" and "0 \<notin> set d"
    and "g (join d b) \<noteq> Some Dir"
  shows "escrever g (join d b) c = Inr (g(join d b \<mapsto> File c))"
proof -
  have "join d b \<noteq> []" "last (join d b) = last b" "0 \<notin> set (join d b)"
    using assms(1-4) by (auto simp: join_relative sep_def)
  moreover have "last b \<noteq> sep"
    using assms(2) last_in_set [OF assms(1)] by metis
  ultimately show ?thesis
    using assms(5) by (simp add: escrever_def)
qed

lemma foldl_upd_other:
  "x \<notin> k ` set as \<Longrightarrow> foldl (\<lambda>h p. h(k p \<mapsto> v p)) g as x = g x"
  by (induction as arbitrary: g) auto

lemma foldl_upd_lookup:
  "distinct (map k as) \<Longrightarrow> p \<in> set as \<Longrightarrow>
   foldl (\<lambda>h p. h(k p \<mapsto> v p)) g as (k p) = Some (v p)"
proof (induction as arbitrary: g)
  case Nil
  then show ?case by simp
next
  case (Cons a as)
  show ?case
  proof (cases "p \<in> set as")
    case True
    then show ?thesis using Cons by simp
  next
    case False
    then have "p = a" using Cons.prems by simp
    moreover have "k a \<notin> k ` set as" using Cons.prems by simp
    then have "foldl (\<lambda>h p. h(k p \<mapsto> v p)) (g(k a \<mapsto> v a)) as (k a) = (g(k a \<mapsto> v a)) (k a)"
      by (rule foldl_upd_other)
    ultimately show ?thesis by (simp only: foldl_Cons fun_upd_same)
  qed
qed

lemma embutivel_entry:
  assumes "embutivel f p"
  shows "empacotar_arquivo f dados p = Inr (dados @ entry_layout (nome_utf8 p, conteudo_de f p))"
proof -
  from assms obtain c bs where c: "f p = Some (File c)" "length c < 2 ^ 32"
    and bs: "encode_utf8 (basename p) = Inr bs" "length bs \<le> 255" and e: "existe f p"
    by (auto simp: embutivel_def split: option.splits node.splits sum.splits)
  have "nome_utf8 p = take 255 bs" "conteudo_de f p = c"
    by (simp_all add: nome_utf8_def conteudo_de_def c bs)
  then show ?thesis
    using empacotar_arquivo_ok [OF e c bs(1), of dados] by simp
qed

lemma embutivel_arquivos:
  "\<forall>p \<in> set as. embutivel f p \<Longrightarrow>
   empacotar_arquivos f dados as =
   Inr (dados @ concat (map (\<lambda>p. entry_layout (nome_utf8 p, conteudo_de f p)) as))"
  by (induction as arbitrary: dados) (simp_all add: embutivel_entry)

lemma embutivel_dados:
  assumes "\<forall>p \<in> set as. embutivel f p" and "length as < 2 ^ 32"
  shows "dados_empacotados f as =
         Inr (payload_layout (map (\<lambda>p. (nome_utf8 p, conteudo_de f p)) as))"
  using assms(2) embutivel_arquivos [OF assms(1)]
  by (simp add: dados_empacotados_def struct_pack_I_def payload_layout_def u32_def
      of_nat_mod_256 comp_def)

subsection \<open>Packing, then unpacking\<close>

lemma embutivel_facts:
  assumes "embutivel f p"
  shows "length (nome_utf8 p) < 256" and "decode_utf8 (nome_utf8 p) = Inr (basename p)"
    and "length (conteudo_de f p) < 2 ^ 32" and "f p = Some (File (conteudo_de f p))"
    and "basename p \<noteq> []" and "0 \<notin> set (basename p)"
proof -
  from assms obtain c bs where c: "f p = Some (File c)" "length c < 2 ^ 32"
    and bs: "encode_utf8 (basename p) = Inr bs" "length bs \<le> 255"
    and e: "p \<noteq> []" "0 \<notin> set p" "last p \<noteq> sep"
    by (auto simp: embutivel_def existe_def split: option.splits node.splits sum.splits)
  have n: "nome_utf8 p = bs"
    using bs by (simp add: nome_utf8_def)
  show "length (nome_utf8 p) < 256" using bs(2) by (simp add: n)
  show "decode_utf8 (nome_utf8 p) = Inr (basename p)"
    unfolding n by (rule decode_encode_utf8 [OF bs(1)])
  show "length (conteudo_de f p) < 2 ^ 32" "f p = Some (File (conteudo_de f p))"
    using c by (simp_all add: conteudo_de_def)
  show "basename p \<noteq> []" using e by (simp add: basename_nonempty)
  show "0 \<notin> set (basename p)" using e(2) basename_subset [of p] by auto
qed

lemma desempacotar_arquivos_embutidos:
  assumes "\<forall>p \<in> set as. embutivel f p" and "0 \<notin> set pasta"
    and "\<forall>p \<in> set as. g (join pasta (basename p)) \<noteq> Some Dir"
  shows "desempacotar_arquivos (length as)
           (pre @ concat (map entry_layout (map (\<lambda>p. (nome_utf8 p, conteudo_de f p)) as)))
           (length pre) pasta g =
         (None, foldl (\<lambda>h p. h(join pasta (basename p) \<mapsto> File (conteudo_de f p))) g as)"
  using assms
proof (induction as arbitrary: pre g)
  case Nil
  then show ?case by simp
next
  case (Cons a as)
  let ?e = "entry_layout (nome_utf8 a, conteudo_de f a)"
  let ?r = "concat (map entry_layout (map (\<lambda>p. (nome_utf8 p, conteudo_de f p)) as))"
  let ?t = "join pasta (basename a)"
  let ?g = "g(?t \<mapsto> File (conteudo_de f a))"
  have a: "embutivel f a" using Cons.prems(1) by simp
  note fa = embutivel_facts [OF a]
  have w: "escrever g ?t (conteudo_de f a) = Inr ?g"
    using fa(5,6) Cons.prems(2,3) by (intro escrever_join) (simp_all add: basename_sep)
  have "desempacotar_arquivos (Suc (length as)) (pre @ ?e @ ?r) (length pre) pasta g =
        desempacotar_arquivos (length as) (pre @ ?e @ ?r) (length (pre @ ?e)) pasta ?g"
    by (subst desempacotar_entry [OF fa(1) fa(3)]) (simp add: fa(2) w)
  also have "\<dots> = desempacotar_arquivos (length as) ((pre @ ?e) @ ?r) (length (pre @ ?e)) pasta ?g"
    by simp
  also have "\<dots> = (None, foldl (\<lambda>h p. h(join pasta (basename p) \<mapsto> File (conteudo_de f p))) ?g as)"
    using Cons.prems by (intro Cons.IH) auto
  finally show ?case
    by (simp only: list.map concat.simps length_Cons foldl_Cons)
qed

lemma endswith_last:
  assumes "endswith s suf" and "suf \<noteq> []"
  shows "s \<noteq> []" and "last s = last suf"
proof -
  from assms(1) have "s = take (length s - length suf) s @ suf"
    by (metis append_take_drop_id endswith_def)
  then show "last s = last suf" "s \<noteq> []"
    using assms(2) by (metis last_appendR, metis append_is_Nil_conv)
qed

lemma saida_dmd_path:
  "saida_dmd output \<noteq> []" "last (saida_dmd output) \<noteq> sep"
  "0 \<notin> set output \<Longrightarrow> 0 \<notin> set (saida_dmd output)"
proof -
  have l: "lit ''.dmd'' \<noteq> []" "last (lit ''.dmd'') = 100" "0 \<notin> set (lit ''.dmd'')"
    by (simp_all add: lit_def)
  show "saida_dmd output \<noteq> []"
    using endswith_last(1) [OF _ l(1)] l(1) by (auto simp: saida_dmd_def)
  show "last (saida_dmd output) \<noteq> sep"
    using endswith_last(2) [OF _ l(1), of "output"] l by (auto simp: saida_dmd_def sep_def)
  show "0 \<notin> set output \<Longrightarrow> 0 \<notin> set (saida_dmd output)"
    using l(3) by (auto simp: saida_dmd_def)
qed

text \<open>
  C2, as the claim states it, fails for two files with the same base name: both entries
  are written to the same path of the destination, the second over the first, so the
  content of the first file is not under its base name.
\<close>

theorem C2_duplicate_names_counterexample:
  "fst (descomprimir_desempacotar Some
          (snd (empacotar_comprimir id fs_dup [lit ''x/a'', lit ''y/a''] (lit ''p'')))
          (lit ''p.dmd'') None) = Sucesso (lit ''p_extraido'') \<and>
   snd (descomprimir_desempacotar Some
          (snd (empacotar_comprimir id fs_dup [lit ''x/a'', lit ''y/a''] (lit ''p'')))
          (lit ''p.dmd'') None) (join (lit ''p_extraido'') (basename (lit ''x/a''))) =
     Some (File [2]) \<and>
   fs_dup (lit ''x/a'') = Some (File [1])"
  by (simp add: avaliar fs_dup_def)

text \<open>
  C2, amended. Take a decompressor that inverts the compressor, a list of fewer than
  \<open>2^32\<close> paths that the packer can embed (existing regular files, each with fewer than
  \<open>2^32\<close> bytes and a base name of at most 255 bytes of UTF-8) with pairwise distinct base
  names, an output path without NUL that is no directory, and a destination that is not
  empty, has no NUL, is absent or a directory, is not the archive itself and has no
  directory where a file is to be written. Then the packer succeeds and writes the archive
  to the output path with its suffix, the unpacker succeeds on that archive, and the
  destination holds, for every file of the list, a file under its base name with the same
  content.
\<close>

theorem C2_roundtrip:
  assumes codec: "\<forall>x. decompress (compress x) = Some x"
    and count: "length arquivos < 2 ^ 32"
    and files: "\<forall>p \<in> set arquivos. embutivel f p"
    and names: "distinct (map basename arquivos)"
    and out: "0 \<notin> set output" "f (saida_dmd output) \<noteq> Some Dir"
    and dest: "pasta = destino (saida_dmd output) pasta_destino" "pasta \<noteq> []" "0 \<notin> set pasta"
    and dir: "f pasta = None \<or> f pasta = Some Dir" "pasta \<noteq> saida_dmd output"
    and targets: "\<forall>p \<in> set arquivos. f (join pasta (basename p)) \<noteq> Some Dir"
  shows "\<exists>r f1 f2.
           empacotar_comprimir compress f arquivos output = (Sucesso r, f1) \<and>
           arquivo_criado r = saida_dmd output \<and>
           descomprimir_desempacotar decompress f1 (saida_dmd output) pasta_destino =
             (Sucesso pasta, f2) \<and>
           (\<forall>p \<in> set arquivos. f2 (join pasta (basename p)) = f p)"
proof -
  let ?es = "map (\<lambda>p. (nome_utf8 p, conteudo_de f p)) arquivos"
  let ?dados = "payload_layout ?es"
  let ?out = "saida_dmd output"
  let ?f1 = "f(?out \<mapsto> File (MAGIC_NUMBER @ compress ?dados))"
  let ?k = "\<lambda>p. join pasta (basename p)"
  let ?f2 = "\<lambda>g. foldl (\<lambda>h p. h(?k p \<mapsto> File (conteudo_de f p))) g arquivos"
  have d: "dados_empacotados f arquivos = Inr ?dados"
    by (rule embutivel_dados [OF files count])
  have w: "escrever f ?out (MAGIC_NUMBER @ compress ?dados) = Inr ?f1"
    using out saida_dmd_path [of "output"] by (simp add: escrever_def)
  from empacotar_comprimir_escreve [of f arquivos ?dados "output" compress ?f1, OF d w]
  obtain r where
    P: "empacotar_comprimir compress f arquivos output = (Sucesso r, ?f1)"
      "arquivo_criado r = ?out"
    by blast
  have ex: "existe ?f1 ?out"
    using out(1) saida_dmd_path [of "output"] by (simp add: existe_def)
  have c: "decompress (compress ?dados) = Some ?dados"
    using codec by simp
  have fo: "?f1 ?out = Some (File (MAGIC_NUMBER @ compress ?dados))"
    by simp
  have U: "descomprimir_desempacotar decompress ?f1 ?out pasta_destino =
      (case (if \<not> existe ?f1 pasta then makedirs ?f1 pasta else Inr ?f1) of
         Inl e \<Rightarrow> (Exit1 (Erro e), ?f1)
       | Inr g \<Rightarrow>
           (case desempacotar ?dados pasta g of
              (Some e, f2) \<Rightarrow> (Exit1 (Erro e), f2)
            | (None, f2) \<Rightarrow> (Sucesso pasta, f2)))"
    unfolding dest(1)
    by (rule descomprimir_payload [of ?f1 ?out "compress ?dados" decompress ?dados pasta_destino,
          OF ex fo c])
  define g where "g = (if \<not> existe ?f1 pasta then ?f1(pasta \<mapsto> Dir) else ?f1)"
  have mk: "(if \<not> existe ?f1 pasta then makedirs ?f1 pasta else Inr ?f1) = Inr g"
    using dest(2,3) by (simp add: g_def makedirs_def)
  have tg: "\<forall>p \<in> set arquivos. g (?k p) \<noteq> Some Dir"
  proof
    fix p assume p: "p \<in> set arquivos"
    then have "embutivel f p" using files by simp
    note fp = embutivel_facts [OF this]
    have "?k p \<noteq> pasta"
      using fp(5) by (intro join_not_dir) (simp_all add: basename_sep)
    then show "g (?k p) \<noteq> Some Dir"
      using targets p by (simp add: g_def)
  qed
  have loop: "desempacotar ?dados pasta g = (None, ?f2 g)"
  proof -
    have "desempacotar ?dados pasta g = desempacotar_arquivos (length ?es) ?dados 4 pasta g"
      using count by (intro desempacotar_payload_layout) simp
    also have "\<dots> = desempacotar_arquivos (length arquivos) ?dados 4 pasta g"
      by (simp only: length_map)
    also have "\<dots> = desempacotar_arquivos (length arquivos)
        (u32 (length arquivos) @ concat (map entry_layout ?es))
        (length (u32 (length arquivos))) pasta g"
      by (simp only: payload_layout_def u32_length length_map)
    also have "\<dots> = (None, ?f2 g)"
      by (rule desempacotar_arquivos_embutidos [OF files dest(3) tg])
    finally show ?thesis .
  qed
  have U': "descomprimir_desempacotar decompress ?f1 ?out pasta_destino = (Sucesso pasta, ?f2 g)"
    by (simp only: U mk loop sum.case prod.case option.case)
  have inj: "inj_on (join pasta) (set (map basename arquivos))"
  proof (rule inj_onI)
    fix b b' assume "b \<in> set (map basename arquivos)" "b' \<in> set (map basename arquivos)"
      and e: "join pasta b = join pasta b'"
    then obtain p p' where "p \<in> set arquivos" "b = basename p" "p' \<in> set arquivos" "b' = basename p'"
      by auto
    then show "b = b'"
      using e files embutivel_facts(5) [of f p] embutivel_facts(5) [of f p']
      by (intro join_inj [of b b' pasta]) (simp_all add: basename_sep)
  qed
  have dk: "distinct (map ?k arquivos)"
    using names inj distinct_map [of "join pasta" "map basename arquivos"]
    by (simp add: comp_def)
  have "\<forall>p \<in> set arquivos. ?f2 g (?k p) = f p"
  proof
    fix p assume p: "p \<in> set arquivos"
    have "?f2 g (?k p) = Some (File (conteudo_de f p))"
      by (rule foldl_upd_lookup [OF dk p])
    then show "?f2 g (?k p) = f p"
      using embutivel_facts(4) [of f p] files p by simp
  qed
  with P U' show ?thesis by auto
qed

theorem C2_roundtrip_witness:
  "snd (descomprimir_desempacotar Some
          (snd (empacotar_comprimir id fs0 [lit ''docs/a.txt''] (lit ''p'')))
          (lit ''p.dmd'') None) (lit ''p_extraido/a.txt'') = Some (File [0x68, 0x69])"
proof -
  have o: "saida_dmd (lit ''p'') = lit ''p.dmd''"
    by (simp add: saida_dmd_def endswith_def lit_def)
  have h1: "\<forall>x. Some (id x) = Some (x :: bytes)" by simp
  have h2: "length [lit ''docs/a.txt''] < 2 ^ 32" by simp
  have h3: "\<forall>p \<in> set [lit ''docs/a.txt'']. embutivel fs0 p"
    by (simp add: embutivel_def avaliar)
  have h4: "distinct (map basename [lit ''docs/a.txt''])" by simp
  have h5: "0 \<notin> set (lit ''p'')" "fs0 (saida_dmd (lit ''p'')) \<noteq> Some Dir"
    by (simp_all add: o) (simp_all add: lit_def fs0_def)
  have h6: "lit ''p_extraido'' = destino (saida_dmd (lit ''p'')) None"
    "lit ''p_extraido'' \<noteq> []" "0 \<notin> set (lit ''p_extraido'')"
    by (simp_all add: o) (simp_all add: avaliar)
  have h7: "fs0 (lit ''p_extraido'') = None \<or> fs0 (lit ''p_extraido'') = Some Dir"
    "lit ''p_extraido'' \<noteq> saida_dmd (lit ''p'')"
    by (simp_all add: o) (simp_all add: lit_def fs0_def)
  have h8: "\<forall>p \<in> set [lit ''docs/a.txt'']. fs0 (join (lit ''p_extraido'') (basename p)) \<noteq> Some Dir"
    by (simp add: avaliar)
  have j: "join (lit ''p_extraido'') (basename (lit ''docs/a.txt'')) = lit ''p_extraido/a.txt''"
    by (simp add: avaliar)
  from C2_roundtrip [of Some id "[lit ''docs/a.txt'']" fs0 "lit ''p''" "lit ''p_extraido''" None,
      OF h1 h2 h3 h4 h5 h6 h7 h8]
  obtain r f1 f2 where
    "empacotar_comprimir id fs0 [lit ''docs/a.txt''] (lit ''p'') = (Sucesso r, f1)"
    "descomprimir_desempacotar Some f1 (saida_dmd (lit ''p'')) None = (Sucesso (lit ''p_extraido''), f2)"
    "f2 (join (lit ''p_extraido'') (basename (lit ''docs/a.txt''))) = fs0 (lit ''docs/a.txt'')"
    by auto
  then show ?thesis
    by (simp add: o j) (simp add: fs0_def)
qed

subsection \<open>Inputs on which the packer succeeds\<close>

lemma empacotavel_arquivo:
  assumes "empacotavel f p"
  shows "\<exists>d. empacotar_arquivo f dados p = Inr d"
proof (cases "existe f p")
  case False
  then show ?thesis by (simp add: empacotar_arquivo_def)
next
  case True
  with assms obtain c bs where "f p = Some (File c)" "length c < 2 ^ 32"
    "encode_utf8 (basename p) = Inr bs"
    by (auto simp: empacotavel_def split: option.splits node.splits sum.splits)
  from empacotar_arquivo_ok [OF True this, of dados] show ?thesis by blast
qed

lemma empacotavel_arquivos:
  "\<forall>p \<in> set as. empacotavel f p \<Longrightarrow> \<exists>d. empacotar_arquivos f dados as = Inr d"
proof (induction as arbitrary: dados)
  case Nil
  then show ?case by simp
next
  case (Cons a as)
  then obtain d where "empacotar_arquivo f dados a = Inr d"
    using empacotavel_arquivo [of f a dados] by auto
  then show ?case using Cons by simp
qed

lemma empacotavel_dados:
  assumes "length as < 2 ^ 32" and "\<forall>p \<in> set as. empacotavel f p"
  shows "\<exists>d. dados_empacotados f as = Inr d"
  using assms(1) empacotavel_arquivos [OF assms(2)]
  by (simp add: dados_empacotados_def struct_pack_I_def)

text \<open>The packer succeeds on every input that the conditions below describe.\<close>

lemma empacotar_comprimir_sucesso:
  assumes "length arquivos < 2 ^ 32" and "\<forall>p \<in> set arquivos. empacotavel f p"
    and "0 \<notin> set output" and "f (saida_dmd output) \<noteq> Some Dir"
  shows "\<exists>r dados. dados_empacotados f arquivos = Inr dados \<and>
           empacotar_comprimir compress f arquivos output =
             (Sucesso r, f(saida_dmd output \<mapsto> File (MAGIC_NUMBER @ compress dados))) \<and>
           arquivo_criado r = saida_dmd output \<and>
           tamanho_original r = length dados \<and>
           tamanho_comprimido r = length (compress dados) \<and>
           taxa_1f r = format_1f (round64 (round64 (1 - round64
             (of_nat (length (compress dados)) / of_nat (length dados))) * 100))"
proof -
  from empacotavel_dados [OF assms(1,2)] obtain dados where
    d: "dados_empacotados f arquivos = Inr dados" by blast
  have w: "escrever f (saida_dmd output) (MAGIC_NUMBER @ compress dados) =
           Inr (f(saida_dmd output \<mapsto> File (MAGIC_NUMBER @ compress dados)))"
    using assms(3,4) saida_dmd_path [of "output"] by (simp add: escrever_def)
  from empacotar_comprimir_escreve [of f arquivos dados "output" compress, OF d w] d
  show ?thesis by blast
qed

subsection \<open>The output path\<close>

text \<open>
  C7. The packer writes the archive to the output path itself when the path ends with
  \<open>.dmd\<close>, and to the path with \<open>.dmd\<close> appended otherwise. For every list of fewer
  than \<open>2^32\<close> paths that the loop passes, and every output path without a NUL whose
  target is not a directory, the packer succeeds, the filesystem it leaves differs from the
  one it found at that target only, which holds the magic number and the compressed
  buffer, and the summary names that target.
\<close>

theorem C7_output_suffix:
  assumes "length arquivos < 2 ^ 32" and "\<forall>p \<in> set arquivos. empacotavel f p"
    and "0 \<notin> set output"
    and "alvo = (if endswith output (lit ''.dmd'') then output else output @ lit ''.dmd'')"
    and "f alvo \<noteq> Some Dir"
  shows "\<exists>r dados. dados_empacotados f arquivos = Inr dados \<and>
           empacotar_comprimir compress f arquivos output =
             (Sucesso r, f(alvo \<mapsto> File (MAGIC_NUMBER @ compress dados))) \<and>
           arquivo_criado r = alvo"
proof -
  have a: "alvo = saida_dmd output"
    using assms(4) by (simp add: saida_dmd_def)
  from empacotar_comprimir_sucesso [OF assms(1-3), of compress] assms(5)
  show ?thesis
    unfolding a by blast
qed

theorem C7_output_suffix_witness:
  "empacotar_comprimir id fs0 [lit ''docs/a.txt''] (lit ''p'') =
     (Sucesso \<lparr>arquivo_criado = lit ''p.dmd'', tamanho_original = 16, tamanho_comprimido = 16,
               taxa_1f = (False, 0)\<rparr>,
      fs0(lit ''p.dmd'' \<mapsto>
        File (MAGIC_NUMBER @ [1, 0, 0, 0, 5, 97, 46, 116, 120, 116, 2, 0, 0, 0, 0x68, 0x69]))) \<and>
   snd (empacotar_comprimir id fs0 [lit ''docs/a.txt''] (lit ''q.dmd'')) =
      fs0(lit ''q.dmd'' \<mapsto>
        File (MAGIC_NUMBER @ [1, 0, 0, 0, 5, 97, 46, 116, 120, 116, 2, 0, 0, 0, 0x68, 0x69]))"
proof -
  have h1: "length [lit ''docs/a.txt''] < 2 ^ 32" by simp
  have h2: "\<forall>p \<in> set [lit ''docs/a.txt'']. empacotavel fs0 p"
    by (simp add: empacotavel_def avaliar)
  have h3: "0 \<notin> set (lit ''p'')" "0 \<notin> set (lit ''q.dmd'')"
    by (simp_all add: lit_def)
  have h4: "lit ''p.dmd'' =
      (if endswith (lit ''p'') (lit ''.dmd'') then lit ''p'' else lit ''p'' @ lit ''.dmd'')"
    "lit ''q.dmd'' =
      (if endswith (lit ''q.dmd'') (lit ''.dmd'') then lit ''q.dmd'' else lit ''q.dmd'' @ lit ''.dmd'')"
    by (simp_all add: endswith_def lit_def)
  have h5: "fs0 (lit ''p.dmd'') \<noteq> Some Dir" "fs0 (lit ''q.dmd'') \<noteq> Some Dir"
    by (simp_all add: fs0_def lit_def)
  have d: "dados_empacotados fs0 [lit ''docs/a.txt''] =
      Inr [1, 0, 0, 0, 5, 97, 46, 116, 120, 116, 2, 0, 0, 0, 0x68, 0x69]"
    by (simp add: avaliar)
  from C7_output_suffix [OF h1 h2 h3(1) h4(1) h5(1), of id]
  obtain r where r: "empacotar_comprimir id fs0 [lit ''docs/a.txt''] (lit ''p'') =
      (Sucesso r, fs0(lit ''p.dmd'' \<mapsto>
        File (MAGIC_NUMBER @ [1, 0, 0, 0, 5, 97, 46, 116, 120, 116, 2, 0, 0, 0, 0x68, 0x69])))"
    by (auto simp: d)
  have "fst (empacotar_comprimir id fs0 [lit ''docs/a.txt''] (lit ''p'')) =
      Sucesso \<lparr>arquivo_criado = lit ''p.dmd'', tamanho_original = 16, tamanho_comprimido = 16,
               taxa_1f = (False, 0)\<rparr>"
    by (simp add: avaliar flutuante)
  with r have 1: "empacotar_comprimir id fs0 [lit ''docs/a.txt''] (lit ''p'') =
     (Sucesso \<lparr>arquivo_criado = lit ''p.dmd'', tamanho_original = 16, tamanho_comprimido = 16,
               taxa_1f = (False, 0)\<rparr>,
      fs0(lit ''p.dmd'' \<mapsto>
        File (MAGIC_NUMBER @ [1, 0, 0, 0, 5, 97, 46, 116, 120, 116, 2, 0, 0, 0, 0x68, 0x69])))"
    by simp
  from C7_output_suffix [OF h1 h2 h3(2) h4(2) h5(2), of id]
  have 2: "snd (empacotar_comprimir id fs0 [lit ''docs/a.txt''] (lit ''q.dmd'')) =
      fs0(lit ''q.dmd'' \<mapsto>
        File (MAGIC_NUMBER @ [1, 0, 0, 0, 5, 97, 46, 116, 120, 116, 2, 0, 0, 0, 0x68, 0x69]))"
    by (auto simp: d)
  from 1 2 show ?thesis by (rule conjI)
qed

subsection \<open>Binary64: the error of a rounding\<close>

lemma pow2_powi: "pow2 e = 2 powi e"
  by (simp add: pow2_def power_int_def power_one_over inverse_eq_divide)

lemma pow2_pos: "0 < pow2 e"
  by (simp add: pow2_powi zero_less_power_int)

lemma pow2_succ: "pow2 (e + 1) = 2 * pow2 e"
  by (simp add: pow2_powi power_int_add_1')

lemma pow2_pred: "pow2 (e - 1) = pow2 e / 2"
  using pow2_succ [of "e - 1"] by simp

lemma pow2_add: "pow2 (a + b) = pow2 a * pow2 b"
  by (simp add: pow2_powi power_int_add)

lemma pow2_mono: "a \<le> b \<Longrightarrow> pow2 a \<le> pow2 b"
  by (simp add: pow2_powi power_int_increasing)

lemma pow2_between: "pow2 a \<le> x \<Longrightarrow> x < pow2 b \<Longrightarrow> a < b"
  using pow2_mono [of b a] by (cases "a < b") auto

lemma expoente_spec:
  "pow2 (- int n) \<le> x \<Longrightarrow> x < pow2 (int n + 1) \<Longrightarrow>
   pow2 (expoente n x) \<le> x \<and> x < pow2 (expoente n x + 1)"
proof (induction n arbitrary: x)
  case 0
  then show ?case by (simp add: pow2_def)
next
  case (Suc n)
  show ?case
  proof (cases "2 \<le> x")
    case True
    have "pow2 (- int n) \<le> pow2 0"
      by (rule pow2_mono) simp
    then have a: "pow2 (- int n) \<le> x / 2"
      using True by (simp add: pow2_def)
    have "pow2 (int (Suc n) + 1) = 2 * pow2 (int n + 1)"
      using pow2_succ [of "int n + 1"] by (simp add: add.commute)
    then have b: "x / 2 < pow2 (int n + 1)"
      using Suc.prems(2) by simp
    define k where "k = expoente n (x / 2)"
    from Suc.IH [OF a b] have i: "pow2 k \<le> x / 2" "x / 2 < pow2 (k + 1)"
      by (simp_all add: k_def)
    have e: "expoente (Suc n) x = k + 1"
      using True by (simp add: k_def)
    show ?thesis
      unfolding e using i pow2_succ [of k] pow2_succ [of "k + 1"] by linarith
  next
    case False
    show ?thesis
    proof (cases "x < 1")
      case True
      have "pow2 (- int n) = 2 * pow2 (- int (Suc n))"
        using pow2_succ [of "- int (Suc n)"] by simp
      then have a: "pow2 (- int n) \<le> x * 2"
        using Suc.prems(1) by simp
      have "pow2 1 \<le> pow2 (int n + 1)"
        by (rule pow2_mono) simp
      then have b: "x * 2 < pow2 (int n + 1)"
        using True by (simp add: pow2_def)
      define k where "k = expoente n (x * 2)"
      from Suc.IH [OF a b] have i: "pow2 k \<le> x * 2" "x * 2 < pow2 (k + 1)"
        by (simp_all add: k_def)
      have e: "expoente (Suc n) x = k - 1"
        using True \<open>\<not> 2 \<le> x\<close> by (simp add: k_def)
      have s: "pow2 (k - 1 + 1) = pow2 k"
        by simp
      show ?thesis
        unfolding e s using i pow2_succ [of k] pow2_pred [of k] by linarith
    next
      case False
      with \<open>\<not> 2 \<le> x\<close> show ?thesis
        by (simp add: pow2_def)
    qed
  qed
qed

lemma rhe_error: "\<bar>of_int (rhe y) - y\<bar> \<le> 1 / 2"
proof -
  define f where "f = \<lfloor>y\<rfloor>"
  have b: "of_int f \<le> y" "y < of_int f + 1"
    unfolding f_def by linarith+
  have r: "rhe y = (if y - of_int f < 1 / 2 then f else if 1 / 2 < y - of_int f then f + 1
                    else if even f then f else f + 1)"
    by (simp add: rhe_def Let_def f_def)
  show ?thesis
  proof (cases "y - of_int f < 1 / 2")
    case True
    then have "rhe y = f" using r by simp
    then show ?thesis using b True by simp
  next
    case False
    show ?thesis
    proof (cases "1 / 2 < y - of_int f")
      case True
      with False have "rhe y = f + 1" using r by simp
      then show ?thesis using b True by simp
    next
      case False
      with \<open>\<not> y - of_int f < 1 / 2\<close> have h: "y = of_int f + 1 / 2"
        by simp
      have "rhe y = f \<or> rhe y = f + 1"
        using r by (simp split: if_splits)
      then show ?thesis
        using h by auto
    qed
  qed
qed

lemma rhe_nonneg: "0 \<le> y \<Longrightarrow> 0 \<le> rhe y"
  by (auto simp: rhe_def Let_def)

text \<open>In the range of the exponents, rounding moves a number by at most \<open>2^-53\<close> of it.\<close>

lemma round64_form:
  assumes "0 < x" and "pow2 (- int l) \<le> x" and "x < pow2 (int h)" and "l \<le> 1100" and "h \<le> 1101"
  shows "\<exists>k e. round64 x = of_int k * pow2 e \<and> - int l - 52 \<le> e \<and> e < int h - 52 \<and>
           \<bar>round64 x - x\<bar> \<le> x / 2 ^ 53"
proof -
  define k where "k = expoente 1100 x"
  define e where "e = k - 52"
  define y where "y = x / pow2 e"
  have "pow2 (- int 1100) \<le> pow2 (- int l)" "pow2 (int h) \<le> pow2 (int 1100 + 1)"
    using assms(4,5) by (auto intro: pow2_mono)
  with assms(2,3) have "pow2 (- int 1100) \<le> x" "x < pow2 (int 1100 + 1)"
    by auto
  from expoente_spec [OF this] have k: "pow2 k \<le> x" "x < pow2 (k + 1)"
    by (simp_all add: k_def)
  have kl: "- int l \<le> k"
    using pow2_between [OF assms(2) k(2)] by simp
  have kh: "k < int h"
    using pow2_between [OF k(1) assms(3)] by simp
  have r: "round64 x = of_int (rhe y) * pow2 e"
    using assms(1) by (simp add: round64_def Let_def k_def e_def y_def)
  have x: "x = y * pow2 e"
    using pow2_pos [of e] by (simp add: y_def)
  have "pow2 k = pow2 e * 2 ^ 52"
    using pow2_add [of e 52] by (simp add: e_def pow2_def)
  then have pe: "pow2 e = pow2 k / 2 ^ 52"
    by simp
  have "round64 x - x = (of_int (rhe y) - y) * pow2 e"
    by (subst r, subst x) (simp add: algebra_simps)
  then have "\<bar>round64 x - x\<bar> = \<bar>of_int (rhe y) - y\<bar> * pow2 e"
    using pow2_pos [of e] by (simp add: abs_mult)
  also have "\<dots> \<le> 1 / 2 * pow2 e"
    using rhe_error [of y] pow2_pos [of e] by (intro mult_right_mono) simp_all
  also have "\<dots> = pow2 k / 2 ^ 53"
    by (simp add: pe)
  also have "\<dots> \<le> x / 2 ^ 53"
    using k(1) by (simp add: divide_right_mono)
  finally have "\<bar>round64 x - x\<bar> \<le> x / 2 ^ 53" .
  with r kl kh show ?thesis
    by (intro exI [of _ "rhe y"] exI [of _ e]) (simp add: e_def)
qed

lemma round64_minus: "round64 (- x) = - round64 x"
  by (simp add: round64_def Let_def sgn_minus)

lemma round64_error:
  assumes "pow2 (- int l) \<le> \<bar>x\<bar>" and "\<bar>x\<bar> < pow2 (int h)" and "l \<le> 1100" and "h \<le> 1101"
  shows "\<bar>round64 x - x\<bar> \<le> \<bar>x\<bar> / 2 ^ 53"
proof -
  have p: "0 < \<bar>x\<bar>"
    using assms(1) pow2_pos [of "- int l"] by linarith
  from round64_form [OF p assms] have a: "\<bar>round64 \<bar>x\<bar> - \<bar>x\<bar>\<bar> \<le> \<bar>x\<bar> / 2 ^ 53"
    by blast
  show ?thesis
  proof (cases "0 \<le> x")
    case True
    with a show ?thesis by simp
  next
    case False
    then have "\<bar>x\<bar> = - x" by simp
    with a have "\<bar>round64 (- x) - (- x)\<bar> \<le> \<bar>x\<bar> / 2 ^ 53"
      by simp
    then show ?thesis
      by (simp add: round64_minus abs_minus_commute)
  qed
qed


lemma round64_zero: "round64 0 = 0"
  by (simp add: round64_def)

lemma passo_quociente:
  assumes "x = 0 \<or> pow2 (- 66) \<le> x" and "0 \<le> x" and "x \<le> 1000"
  shows "\<bar>round64 x - x\<bar> \<le> x / 2 ^ 53"
    and "round64 x = 0 \<or> (\<exists>k e. round64 x = of_int k * pow2 e \<and> - 118 \<le> e \<and> e < 0)"
proof -
  have "\<bar>round64 x - x\<bar> \<le> x / 2 ^ 53 \<and>
        (round64 x = 0 \<or> (\<exists>k e. round64 x = of_int k * pow2 e \<and> - 118 \<le> e \<and> e < 0))"
  proof (cases "x = 0")
    case True
    then show ?thesis by (simp add: round64_zero)
  next
    case False
    with assms have p: "0 < x" and l: "pow2 (- int 66) \<le> x"
      by auto
    have h: "x < pow2 (int 10)"
      using assms(3) by (simp add: pow2_def)
    from round64_form [OF p l h] obtain k e where
      "round64 x = of_int k * pow2 e" "- int 66 - 52 \<le> e" "e < int 10 - 52"
      "\<bar>round64 x - x\<bar> \<le> x / 2 ^ 53"
      by auto
    then show ?thesis
      by (intro conjI disjI2 exI [of _ k] exI [of _ e]) simp_all
  qed
  then show "\<bar>round64 x - x\<bar> \<le> x / 2 ^ 53"
    and "round64 x = 0 \<or> (\<exists>k e. round64 x = of_int k * pow2 e \<and> - 118 \<le> e \<and> e < 0)"
    by simp_all
qed

lemma passo_diferenca:
  assumes "\<bar>q\<bar> \<le> 1001"
    and "q = 0 \<or> (\<exists>k e. q = of_int k * pow2 e \<and> - 118 \<le> e \<and> e < 0)"
  shows "\<bar>round64 (1 - q) - (1 - q)\<bar> \<le> \<bar>1 - q\<bar> / 2 ^ 53"
    and "1 - q = 0 \<or> pow2 (- 118) \<le> \<bar>1 - q\<bar>"
proof -
  have g: "1 - q = 0 \<or> pow2 (- 118) \<le> \<bar>1 - q\<bar>"
  proof (cases "q = 0")
    case True
    have "pow2 (- 118) \<le> pow2 0"
      by (rule pow2_mono) simp
    with True show ?thesis by (simp add: pow2_def)
  next
    case False
    with assms(2) obtain k e where q: "q = of_int k * pow2 e" and e: "- 118 \<le> e" "e < 0"
      by auto
    define n where "n = nat (- e)"
    have pe: "pow2 e = 1 / 2 ^ n"
      using e(2) by (simp add: pow2_def n_def)
    have m: "(1 - q) * 2 ^ n = of_int (2 ^ n - k)"
      by (simp add: q pe field_simps)
    show ?thesis
    proof (cases "1 - q = 0")
      case True
      then show ?thesis by simp
    next
      case False
      with m have "(of_int (2 ^ n - k) :: rat) \<noteq> 0"
        by (metis mult_eq_0_iff power_not_zero zero_neq_numeral)
      then have "2 ^ n - k \<noteq> 0"
        by auto
      then have "1 \<le> \<bar>2 ^ n - k\<bar>"
        by arith
      then have "(1 :: rat) \<le> \<bar>of_int (2 ^ n - k)\<bar>"
        by (metis of_int_1_le_iff of_int_abs)
      moreover have "\<bar>(1 - q) * 2 ^ n\<bar> = \<bar>of_int (2 ^ n - k)\<bar>"
        by (simp only: m)
      moreover have "\<bar>(1 - q) * 2 ^ n\<bar> = \<bar>1 - q\<bar> * 2 ^ n"
        by (simp add: abs_mult)
      ultimately have "1 \<le> \<bar>1 - q\<bar> * 2 ^ n"
        by (simp only:)
      then have "pow2 e \<le> \<bar>1 - q\<bar>"
        by (simp add: pe field_simps)
      moreover have "pow2 (- 118) \<le> pow2 e"
        using e(1) by (rule pow2_mono)
      ultimately show ?thesis by linarith
    qed
  qed
  show "1 - q = 0 \<or> pow2 (- 118) \<le> \<bar>1 - q\<bar>"
    by (rule g)
  show "\<bar>round64 (1 - q) - (1 - q)\<bar> \<le> \<bar>1 - q\<bar> / 2 ^ 53"
  proof (cases "1 - q = 0")
    case True
    then show ?thesis by (simp add: round64_zero)
  next
    case False
    with g have l: "pow2 (- int 118) \<le> \<bar>1 - q\<bar>"
      by simp
    have "\<bar>1 - q\<bar> \<le> 1002"
      using assms(1) by linarith
    then have h: "\<bar>1 - q\<bar> < pow2 (int 11)"
      by (simp add: pow2_def)
    show ?thesis
      by (rule round64_error [OF l h]) simp_all
  qed
qed

lemma passo_produto:
  assumes "s = 0 \<or> pow2 (- 118) \<le> \<bar>s\<bar>" and "\<bar>s\<bar> \<le> 1002" and "\<bar>d - s\<bar> \<le> \<bar>s\<bar> / 2 ^ 53"
  shows "\<bar>round64 (d * 100) - d * 100\<bar> \<le> \<bar>d * 100\<bar> / 2 ^ 53"
proof (cases "s = 0")
  case True
  with assms(3) have "d = 0" by simp
  then show ?thesis by (simp add: round64_zero)
next
  case False
  with assms(1) have s: "pow2 (- 118) \<le> \<bar>s\<bar>"
    by simp
  have "\<bar>s\<bar> / 2 ^ 53 \<le> \<bar>s\<bar> / 2"
    by (simp add: field_simps)
  with assms(3) have d: "\<bar>s\<bar> / 2 \<le> \<bar>d\<bar>" "\<bar>d\<bar> \<le> 2 * \<bar>s\<bar>"
    by linarith+
  have "pow2 (- 118) = 2 * pow2 (- 119)"
    using pow2_succ [of "- 119"] by simp
  with s d(1) have "pow2 (- 119) \<le> \<bar>d\<bar>"
    by linarith
  then have "pow2 (- 119) \<le> \<bar>d\<bar> * 100"
    using pow2_pos [of "- 119"] by linarith
  then have l: "pow2 (- int 119) \<le> \<bar>d * 100\<bar>"
    by (simp add: abs_mult)
  have "\<bar>d\<bar> * 100 \<le> 200400"
    using d(2) assms(2) by linarith
  then have h: "\<bar>d * 100\<bar> < pow2 (int 20)"
    by (simp add: abs_mult pow2_def)
  show ?thesis
    by (rule round64_error [OF l h]) simp_all
qed

text \<open>
  Line 71 in binary64 against the exact formula, for a quotient \<open>x\<close> of at most 1000 that
  is zero or at least \<open>2^-66\<close>.
\<close>

lemma taxa_erro:
  assumes "x = 0 \<or> pow2 (- 66) \<le> x" and "0 \<le> x" and "x \<le> 1000"
  shows "\<bar>round64 (round64 (1 - round64 x) * 100) - (1 - x) * 100\<bar> \<le> 1 / 10 ^ 10"
proof -
  define q where "q = round64 x"
  define s where "s = 1 - q"
  define d where "d = round64 s"
  define t where "t = round64 (d * 100)"
  have a: "\<bar>q - x\<bar> \<le> x / 2 ^ 53"
    unfolding q_def by (rule passo_quociente(1) [OF assms])
  have "x / 2 ^ 53 \<le> 1"
    using assms(3) by simp
  with a assms(2,3) have q: "\<bar>q\<bar> \<le> 1001"
    by linarith
  have b: "\<bar>d - s\<bar> \<le> \<bar>s\<bar> / 2 ^ 53" and g: "s = 0 \<or> pow2 (- 118) \<le> \<bar>s\<bar>"
    unfolding d_def s_def q_def
    by (rule passo_diferenca [OF q [unfolded q_def] passo_quociente(2) [OF assms]])+
  have s: "\<bar>s\<bar> \<le> 1002"
    using q unfolding s_def by linarith
  have c: "\<bar>t - d * 100\<bar> \<le> \<bar>d * 100\<bar> / 2 ^ 53"
    unfolding t_def by (rule passo_produto [OF g s b])
  have a': "\<bar>q - x\<bar> \<le> 1000 / 2 ^ 53"
    using a assms(3) by simp
  have b': "\<bar>d - s\<bar> \<le> 1002 / 2 ^ 53"
    using b s by simp
  have "1002 / 2 ^ 53 \<le> (1 :: rat)"
    by simp
  with b' s have "\<bar>d\<bar> \<le> 1003"
    by linarith
  then have "\<bar>d * 100\<bar> \<le> 100300"
    by (simp add: abs_mult)
  with c have c': "\<bar>t - d * 100\<bar> \<le> 100300 / 2 ^ 53"
    by simp
  define u v w where "u = t - d * 100" and "v = d - s" and "w = q - x"
  have "t - (1 - x) * 100 = u + 100 * v - 100 * w"
    by (simp add: u_def v_def w_def s_def algebra_simps)
  moreover have "\<bar>u + 100 * v - 100 * w\<bar> \<le> \<bar>u\<bar> + 100 * \<bar>v\<bar> + 100 * \<bar>w\<bar>"
    by linarith
  moreover have "\<bar>u\<bar> + 100 * \<bar>v\<bar> + 100 * \<bar>w\<bar> \<le> 300500 / 2 ^ 53"
    using a' b' c' unfolding u_def v_def w_def by simp
  moreover have "300500 / 2 ^ 53 \<le> (1 / 10 ^ 10 :: rat)"
    by simp
  ultimately have "\<bar>t - (1 - x) * 100\<bar> \<le> 1 / 10 ^ 10"
    by linarith
  then show ?thesis
    by (simp add: t_def d_def s_def q_def)
qed

lemma format_1f_erro: "\<bar>of_nat (snd (format_1f t)) / 10 - \<bar>t\<bar>\<bar> \<le> 1 / 20"
proof -
  have "0 \<le> rhe (\<bar>t\<bar> * 10)"
    by (rule rhe_nonneg) simp
  then have e: "(of_nat (snd (format_1f t)) :: rat) = of_int (rhe (\<bar>t\<bar> * 10))"
    by (simp add: format_1f_def)
  from rhe_error [of "\<bar>t\<bar> * 10"] show ?thesis
    unfolding e by linarith
qed

subsection \<open>The length of the buffer\<close>

text \<open>
  Every entry adds fewer than \<open>2^33\<close> bytes, and there are fewer than \<open>2^32\<close>
  entries.
\<close>

lemma empacotar_arquivo_limite:
  "empacotar_arquivo f dados p = Inr d \<Longrightarrow> length d \<le> length dados + 2 ^ 33"
  by (auto simp: empacotar_arquivo_def Let_def bytearray_append_def struct_pack_I_def ler_def
      split: if_splits sum.splits option.splits node.splits)

lemma empacotar_arquivos_limite:
  "empacotar_arquivos f dados as = Inr d \<Longrightarrow> length d \<le> length dados + length as * 2 ^ 33"
proof (induction as arbitrary: dados)
  case Nil
  then show ?case by simp
next
  case (Cons a as)
  then obtain d1 where 1: "empacotar_arquivo f dados a = Inr d1"
    and 2: "empacotar_arquivos f d1 as = Inr d"
    by (auto split: sum.splits)
  from empacotar_arquivo_limite [OF 1] Cons.IH [OF 2] show ?case
    by simp
qed

lemma dados_empacotados_limite:
  assumes "dados_empacotados f as = Inr d"
  shows "length d < 2 ^ 66"
proof -
  from assms obtain cab where c: "struct_pack_I (length as) = Inr cab"
    and e: "empacotar_arquivos f cab as = Inr d"
    by (auto simp: dados_empacotados_def split: sum.splits)
  from c have n: "length as < 2 ^ 32" "length cab = 4"
    by (auto simp: struct_pack_I_def split: if_splits)
  have "length as * 2 ^ 33 \<le> (2 ^ 32 - 1) * 2 ^ 33"
    using n(1) by (intro mult_right_mono) simp_all
  with empacotar_arquivos_limite [OF e] n(2) show ?thesis
    by simp
qed

text \<open>
  The percentage printed against the exact one: half a unit of the last digit printed, and
  the error of the three roundings.
\<close>

lemma percentagem_erro:
  assumes "0 < b" and "b < 2 ^ 66" and "a \<le> 1000 * b"
  shows "\<bar>of_nat (snd (format_1f (round64 (round64 (1 - round64 (of_nat a / of_nat b)) * 100)))) / 10
          - \<bar>percentagem a b\<bar>\<bar> \<le> 1 / 20 + 1 / 10 ^ 10"
proof -
  define x :: rat where "x = of_nat a / of_nat b"
  define t where "t = round64 (round64 (1 - round64 x) * 100)"
  have x0: "0 \<le> x"
    by (simp add: x_def)
  have "(of_nat a :: rat) \<le> 1000 * of_nat b"
    using assms(3) by (metis of_nat_le_iff of_nat_mult of_nat_numeral)
  then have x1: "x \<le> 1000"
    using assms(1) by (simp add: x_def field_simps)
  have x2: "x = 0 \<or> pow2 (- 66) \<le> x"
  proof (cases "a = 0")
    case True
    then show ?thesis by (simp add: x_def)
  next
    case False
    then have "(1 :: rat) \<le> of_nat a"
      by simp
    moreover have "(of_nat b :: rat) \<le> 2 ^ 66"
      using assms(2) by (metis less_imp_le of_nat_le_iff of_nat_numeral of_nat_power)
    ultimately have "1 / 2 ^ 66 \<le> x"
      using assms(1) unfolding x_def by (intro frac_le) simp_all
    then show ?thesis by (simp add: pow2_def)
  qed
  have "\<bar>t - (1 - x) * 100\<bar> \<le> 1 / 10 ^ 10"
    unfolding t_def by (rule taxa_erro [OF x2 x0 x1])
  moreover have "percentagem a b = (1 - x) * 100"
    by (simp add: percentagem_def x_def)
  moreover have "\<bar>\<bar>t\<bar> - \<bar>percentagem a b\<bar>\<bar> \<le> \<bar>t - percentagem a b\<bar>"
    by (rule abs_triangle_ineq3)
  ultimately have "\<bar>\<bar>t\<bar> - \<bar>percentagem a b\<bar>\<bar> \<le> 1 / 10 ^ 10"
    by (simp only:)
  with format_1f_erro [of t] show ?thesis
    unfolding t_def x_def by linarith
qed


subsection \<open>The percentage of the summary\<close>

text \<open>
  C8, as the claim states it, fails. For the file of the example the sizes are 80 and 29
  and the exact percentage is \<open>63.75\<close>, which to one decimal place is \<open>63.8\<close>. Line 71
  computes in binary64: the quotient \<open>29/80\<close> is rounded up, the product by 100 comes
  out as \<open>8972014882652159 / 2^47\<close>, just below \<open>63.75\<close>, and line 77 prints
  \<open>63.7\<close>.
\<close>

theorem C8_rounding_counterexample:
  "fst (empacotar_comprimir zlib_a fs_a [lit ''a''] (lit ''p'')) =
     Sucesso \<lparr>arquivo_criado = lit ''p.dmd'', tamanho_original = 80, tamanho_comprimido = 29,
              taxa_1f = (False, 637)\<rparr> \<and>
   format_1f (percentagem 29 80) = (False, 638)"
proof -
  have d: "dados_empacotados fs_a [lit ''a''] =
      Inr ([1, 0, 0, 0, 1, 97, 70, 0, 0, 0] @ conteudo_70)"
    by (simp add: avaliar fs_a_def length_conteudo_70)
  have w: "escrever fs_a (saida_dmd (lit ''p'')) arq = Inr (fs_a(lit ''p.dmd'' \<mapsto> File arq))" for arq
    by (simp add: avaliar fs_a_def)
  from empacotar_comprimir_escreve [of fs_a _ _ "lit ''p''" zlib_a, OF d w]
  obtain r where r: "empacotar_comprimir zlib_a fs_a [lit ''a''] (lit ''p'') =
        (Sucesso r, fs_a(lit ''p.dmd'' \<mapsto> File (MAGIC_NUMBER @ zlib_a ([1, 0, 0, 0, 1, 97, 70, 0, 0, 0] @ conteudo_70))))"
    and "arquivo_criado r = saida_dmd (lit ''p'')"
    and "tamanho_original r = length ([1, 0, 0, 0, 1, 97, 70, 0, 0, 0] @ conteudo_70)"
    and "tamanho_comprimido r = length (zlib_a ([1, 0, 0, 0, 1, 97, 70, 0, 0, 0] @ conteudo_70))"
    and "taxa_1f r = format_1f (round64 (round64 (1 - round64 (of_nat (length (zlib_a ([1, 0, 0, 0, 1, 97, 70, 0, 0, 0] @ conteudo_70))) / of_nat (length ([1, 0, 0, 0, 1, 97, 70, 0, 0, 0] @ conteudo_70)))) * 100))"
    by blast
  then have "r = \<lparr>arquivo_criado = lit ''p.dmd'', tamanho_original = 80, tamanho_comprimido = 29,
              taxa_1f = (False, 637)\<rparr>"
    by (simp add: zlib_a_def length_conteudo_70 taxa_29_80 saida_dmd_def endswith_def lit_def)
  moreover have "format_1f (percentagem 29 80) = (False, 638)"
    by (simp add: percentagem_def flutuante)
  ultimately show ?thesis
    by (simp add: r)
qed

text \<open>
  C8, amended. On every input on which the packer succeeds (fewer than \<open>2^32\<close> paths
  that the loop passes, an output path without a NUL whose target is not a directory), the
  sizes of the summary are the length of the buffer and the length of the compressed
  buffer, and the percentage printed is the binary64 value of
  \<open>(1 - compressed/original) * 100\<close>, with the quotient, the difference and the product
  each rounded to the nearest binary64 number, ties to even, formatted to one decimal
  place. When the compressed size is at most 1000 times the original size, the magnitude
  printed is within \<open>0.05 + 10^-10\<close> of the magnitude of the exact percentage: the
  printed number can differ from the exact one rounded to one decimal place by one unit of
  the last digit, and by no more.
\<close>

theorem C8_reported_percentage:
  assumes "length arquivos < 2 ^ 32" and "\<forall>p \<in> set arquivos. empacotavel f p"
    and "0 \<notin> set output" and "f (saida_dmd output) \<noteq> Some Dir"
  shows "\<exists>r f' dados. empacotar_comprimir compress f arquivos output = (Sucesso r, f') \<and>
           dados_empacotados f arquivos = Inr dados \<and>
           tamanho_original r = length dados \<and>
           tamanho_comprimido r = length (compress dados) \<and>
           taxa_1f r = format_1f (round64 (round64 (1 - round64
             (of_nat (tamanho_comprimido r) / of_nat (tamanho_original r))) * 100)) \<and>
           (tamanho_comprimido r \<le> 1000 * tamanho_original r \<longrightarrow>
              \<bar>of_nat (snd (taxa_1f r)) / 10
                - \<bar>percentagem (tamanho_comprimido r) (tamanho_original r)\<bar>\<bar>
              \<le> 1 / 20 + 1 / 10 ^ 10)"
proof -
  from empacotar_comprimir_sucesso [OF assms, of compress]
  obtain r dados where d: "dados_empacotados f arquivos = Inr dados"
    and r: "empacotar_comprimir compress f arquivos output =
       (Sucesso r, f(saida_dmd output \<mapsto> File (MAGIC_NUMBER @ compress dados)))"
    and o: "tamanho_original r = length dados"
    and c: "tamanho_comprimido r = length (compress dados)"
    and t: "taxa_1f r = format_1f (round64 (round64 (1 - round64
             (of_nat (length (compress dados)) / of_nat (length dados))) * 100))"
    by blast
  have p: "0 < length dados"
    using dados_empacotados_length [OF d] by linarith
  have e: "length (compress dados) \<le> 1000 * length dados \<longrightarrow>
      \<bar>of_nat (snd (taxa_1f r)) / 10 - \<bar>percentagem (length (compress dados)) (length dados)\<bar>\<bar>
        \<le> 1 / 20 + 1 / 10 ^ 10"
    unfolding t using percentagem_erro [OF p dados_empacotados_limite [OF d]] by blast
  from r d o c t e show ?thesis
    by (intro exI [of _ r] exI [of _ dados]
        exI [of _ "f(saida_dmd output \<mapsto> File (MAGIC_NUMBER @ compress dados))"]) simp
qed

theorem C8_reported_percentage_witness:
  "(\<exists>f'. empacotar_comprimir zlib_a fs_a [lit ''a''] (lit ''p'') =
      (Sucesso \<lparr>arquivo_criado = lit ''p.dmd'', tamanho_original = 80, tamanho_comprimido = 29,
                taxa_1f = (False, 637)\<rparr>, f')) \<and>
   \<bar>637 / 10 - \<bar>percentagem 29 80\<bar>\<bar> \<le> 1 / 20 + 1 / 10 ^ 10"
proof -
  have h1: "length [lit ''a''] < 2 ^ 32" by simp
  have h2: "\<forall>p \<in> set [lit ''a'']. empacotavel fs_a p"
    by (simp add: empacotavel_def avaliar fs_a_def length_conteudo_70)
  have h3: "0 \<notin> set (lit ''p'')"
    by (simp add: lit_def)
  have h4: "fs_a (saida_dmd (lit ''p'')) \<noteq> Some Dir"
    by (simp add: fs_a_def avaliar)
  have d: "dados_empacotados fs_a [lit ''a''] =
      Inr ([1, 0, 0, 0, 1, 97, 70, 0, 0, 0] @ conteudo_70)"
    by (simp add: avaliar fs_a_def length_conteudo_70)
  from C8_reported_percentage [OF h1 h2 h3 h4, of zlib_a]
  obtain r f' dados where r: "empacotar_comprimir zlib_a fs_a [lit ''a''] (lit ''p'') = (Sucesso r, f')"
    and d': "dados_empacotados fs_a [lit ''a''] = Inr dados"
    and t': "tamanho_original r = length dados" "tamanho_comprimido r = length (zlib_a dados)"
    and x: "taxa_1f r = format_1f (round64 (round64 (1 - round64
             (of_nat (tamanho_comprimido r) / of_nat (tamanho_original r))) * 100))"
    and b: "tamanho_comprimido r \<le> 1000 * tamanho_original r \<longrightarrow>
              \<bar>of_nat (snd (taxa_1f r)) / 10
                - \<bar>percentagem (tamanho_comprimido r) (tamanho_original r)\<bar>\<bar>
              \<le> 1 / 20 + 1 / 10 ^ 10"
    by blast
  from d d' t' have t: "tamanho_original r = 80" "tamanho_comprimido r = 29"
    by (simp_all add: zlib_a_def length_conteudo_70)
  have "arquivo_criado r = lit ''p.dmd''"
    using r by (auto simp: empacotar_comprimir_def Let_def saida_dmd_def endswith_def lit_def
        split: sum.splits)
  with t x have e: "r = \<lparr>arquivo_criado = lit ''p.dmd'', tamanho_original = 80,
      tamanho_comprimido = 29, taxa_1f = (False, 637)\<rparr>"
    by (simp add: taxa_29_80)
  from b have "\<bar>637 / 10 - \<bar>percentagem 29 80\<bar>\<bar> \<le> 1 / 20 + 1 / 10 ^ 10"
    unfolding e by simp
  with r e show ?thesis by blast
qed

end
